theory Spec2Isabelle
  imports Main
begin

section \<open>Path resolution and namespace operations of \<^verbatim>\<open>filesys/filesys.c\<close>\<close>

text \<open>
  The development embeds \<^verbatim>\<open>get_next_part\<close>, \<^verbatim>\<open>find_file\<close>, \<^verbatim>\<open>filesys_create\<close>,
  \<^verbatim>\<open>filesys_open\<close>, \<^verbatim>\<open>filesys_remove\<close> and \<^verbatim>\<open>filesys_change_dir\<close>. A C string is the
  list of its characters before the terminating NUL, so \<^verbatim>\<open>*src == '\0'\<close> reads
  \<open>src = []\<close>. A pointer that may be \<^verbatim>\<open>NULL\<close> is an \<open>option\<close>. Sector numbers
  (\<^verbatim>\<open>block_sector_t\<close>) and sizes (\<^verbatim>\<open>off_t\<close>) are only passed around, never computed
  with, and are \<open>nat\<close> and \<open>int\<close>.
\<close>

subsection \<open>Constants declared outside \<^verbatim>\<open>filesys.c\<close>\<close>

type_synonym sector = nat

text \<open>
  \<^verbatim>\<open>NAME_MAX\<close> and \<^verbatim>\<open>ROOT_DIR_SECTOR\<close> come from headers; every function takes
  them as a parameter.
\<close>

record fs_config =
  NAME_MAX :: nat
  ROOT_DIR_SECTOR :: sector

subsection \<open>The collaborators' state\<close>

text \<open>
  An inode is what the layer can observe of it: the type flag, the length
  it was created with, and its data read as a directory table. Names are unique within
  a table, so the table is a map.
\<close>

record inode_disk =
  i_is_dir :: bool
  i_length :: int
  i_entries :: "string \<rightharpoonup> sector"

text \<open>
  \<open>cwd_sector\<close> is \<^verbatim>\<open>thread_current()->cwd_sector\<close>. \<open>free_map\<close> is the free-space
  bitmap (\<open>True\<close>: in use). \<open>inodes\<close> is the storage, one inode per sector.
  \<open>inode_handles\<close> and \<open>dir_handles\<close> list every handle ever opened, with how
  many times it has been released: an inode handle is its index in \<open>inode_handles\<close>
  and refers to a sector, a directory handle is its index in \<open>dir_handles\<close> and owns
  an inode handle. \<open>dir_peak\<close> records the largest number of directory handles that were
  open at the same time. \<open>faults\<close> decides the collaborator calls that can fail for
  lack of resources: each such call takes the head of the list, \<open>True\<close> making it fail;
  when the list is used up, nothing fails.
\<close>

record fs_state =
  cwd_sector :: sector
  free_map :: "bool list"
  inodes :: "sector \<Rightarrow> inode_disk"
  inode_handles :: "(sector \<times> nat) list"
  dir_handles :: "(nat \<times> nat) list"
  dir_peak :: nat
  faults :: "bool list"

definition take_fault :: "fs_state \<Rightarrow> bool \<times> fs_state" where
  "take_fault s = (case faults s of [] \<Rightarrow> (False, s) | f # fs \<Rightarrow> (f, s\<lparr>faults := fs\<rparr>))"

definition live_dirs :: "fs_state \<Rightarrow> nat" where
  "live_dirs s = length (filter (\<lambda>h. snd h = 0) (dir_handles s))"

subsection \<open>Collaborator interfaces\<close>

text \<open>
  Modelled from the spec: the allocation interface \<^verbatim>\<open>Allocate(count) -> location | failure\<close>
  and \<^verbatim>\<open>Release(location, count)\<close> of \<^verbatim>\<open>free-map.c\<close>, which is not part of the sources
  at hand, for the only count used here, 1. Allocation takes the first free
  sector of the bitmap and fails when there is none.
\<close>

fun first_free :: "bool list \<Rightarrow> nat option" where
  "first_free [] = None"
| "first_free (b # bs) = (if b then map_option Suc (first_free bs) else Some 0)"

definition free_map_allocate :: "fs_state \<Rightarrow> sector option \<times> fs_state" where
  "free_map_allocate s =
     (case first_free (free_map s) of
        None \<Rightarrow> (None, s)
      | Some n \<Rightarrow> (Some n, s\<lparr>free_map := (free_map s)[n := True]\<rparr>))"

definition free_map_release :: "fs_state \<Rightarrow> sector \<Rightarrow> fs_state" where
  "free_map_release s n = s\<lparr>free_map := (free_map s)[n := False]\<rparr>"

text \<open>
  Modelled from the spec: the inode interface \<^verbatim>\<open>InodeCreate(location, size, isDirectory) -> bool\<close>,
  \<^verbatim>\<open>InodeOpen(location) -> handle\<close>, \<^verbatim>\<open>InodeClose(handle)\<close>, \<^verbatim>\<open>InodeNumber(handle)\<close>
  and \<^verbatim>\<open>InodeIsDirectory(handle)\<close> of \<^verbatim>\<open>inode.c\<close>, which is not part of the sources at
  hand. Creation can fail for lack of resources; when it succeeds the sector holds an
  inode of the requested type and size with no data. Opening always yields a new
  handle. Closing \<^verbatim>\<open>NULL\<close> does nothing.
\<close>

definition inode_create :: "fs_state \<Rightarrow> sector \<Rightarrow> int \<Rightarrow> bool \<Rightarrow> bool \<times> fs_state" where
  "inode_create s sec len is_dir =
     (case take_fault s of
        (True, s') \<Rightarrow> (False, s')
      | (False, s') \<Rightarrow>
          (True, s'\<lparr>inodes := (inodes s')
             (sec := \<lparr>i_is_dir = is_dir, i_length = len, i_entries = Map.empty\<rparr>)\<rparr>))"

definition inode_open :: "fs_state \<Rightarrow> sector \<Rightarrow> nat option \<times> fs_state" where
  "inode_open s sec =
     (Some (length (inode_handles s)), s\<lparr>inode_handles := inode_handles s @ [(sec, 0)]\<rparr>)"

definition inode_close :: "fs_state \<Rightarrow> nat option \<Rightarrow> fs_state" where
  "inode_close s inode =
     (case inode of
        None \<Rightarrow> s
      | Some i \<Rightarrow>
          if i < length (inode_handles s)
          then s\<lparr>inode_handles := (inode_handles s)
                  [i := (fst (inode_handles s ! i), Suc (snd (inode_handles s ! i)))]\<rparr>
          else s)"

definition inode_sector :: "fs_state \<Rightarrow> nat \<Rightarrow> sector" where
  "inode_sector s i = (if i < length (inode_handles s) then fst (inode_handles s ! i) else 0)"

definition inode_get_inumber :: "fs_state \<Rightarrow> nat option \<Rightarrow> sector" where
  "inode_get_inumber s inode = (case inode of None \<Rightarrow> 0 | Some i \<Rightarrow> inode_sector s i)"

definition inode_is_dir :: "fs_state \<Rightarrow> nat option \<Rightarrow> bool" where
  "inode_is_dir s inode =
     (case inode of None \<Rightarrow> False | Some i \<Rightarrow> i_is_dir (inodes s (inode_sector s i)))"

text \<open>
  Modelled from the spec: the directory interface \<^verbatim>\<open>DirectoryOpen(inodeHandle) -> handle\<close>,
  \<^verbatim>\<open>DirectoryOpenRoot() -> handle\<close>, \<^verbatim>\<open>DirectoryClose(handle)\<close>,
  \<^verbatim>\<open>DirectoryLookup(handle, name) -> inodeHandle | miss\<close>,
  \<^verbatim>\<open>DirectoryAdd(handle, name, location) -> bool\<close>, \<^verbatim>\<open>DirectoryRemove(handle, name) -> bool\<close>
  and \<^verbatim>\<open>DirectoryGetInode(handle) -> inodeHandle\<close> of \<^verbatim>\<open>directory.c\<close>, which is not part
  of the sources at hand. A directory handle owns the inode handle it was opened from and
  releases it when it is closed. A lookup that hits opens an inode handle on the entry's
  sector; a miss yields \<^verbatim>\<open>NULL\<close>. Adding refuses a name that is already present and can
  fail for lack of resources. Removing deletes the entry of exactly that name, and fails
  when there is none. A \<^verbatim>\<open>NULL\<close> directory passes through every operation without effect.
\<close>

definition dir_open :: "fs_state \<Rightarrow> nat option \<Rightarrow> nat option \<times> fs_state" where
  "dir_open s inode =
     (case inode of
        None \<Rightarrow> (None, s)
      | Some i \<Rightarrow>
          (let s' = s\<lparr>dir_handles := dir_handles s @ [(i, 0)]\<rparr>
           in (Some (length (dir_handles s)), s'\<lparr>dir_peak := max (dir_peak s) (live_dirs s')\<rparr>)))"

definition dir_open_root :: "fs_config \<Rightarrow> fs_state \<Rightarrow> nat option \<times> fs_state" where
  "dir_open_root K s = (case inode_open s (ROOT_DIR_SECTOR K) of (inode, s') \<Rightarrow> dir_open s' inode)"

definition dir_get_inode :: "fs_state \<Rightarrow> nat option \<Rightarrow> nat option" where
  "dir_get_inode s dir =
     (case dir of
        None \<Rightarrow> None
      | Some d \<Rightarrow> if d < length (dir_handles s) then Some (fst (dir_handles s ! d)) else None)"

definition dir_close :: "fs_state \<Rightarrow> nat option \<Rightarrow> fs_state" where
  "dir_close s dir =
     (case dir of
        None \<Rightarrow> s
      | Some d \<Rightarrow>
          if d < length (dir_handles s)
          then inode_close
                 (s\<lparr>dir_handles := (dir_handles s)
                      [d := (fst (dir_handles s ! d), Suc (snd (dir_handles s ! d)))]\<rparr>)
                 (Some (fst (dir_handles s ! d)))
          else s)"

definition dir_sector :: "fs_state \<Rightarrow> nat option \<Rightarrow> sector" where
  "dir_sector s dir = inode_get_inumber s (dir_get_inode s dir)"

definition dir_lookup :: "fs_state \<Rightarrow> nat option \<Rightarrow> string \<Rightarrow> nat option \<times> fs_state" where
  "dir_lookup s dir name =
     (case dir of
        None \<Rightarrow> (None, s)
      | Some d \<Rightarrow>
          (case i_entries (inodes s (dir_sector s dir)) name of
             None \<Rightarrow> (None, s)
           | Some sec \<Rightarrow> inode_open s sec))"

definition dir_add :: "fs_state \<Rightarrow> nat option \<Rightarrow> string \<Rightarrow> sector \<Rightarrow> bool \<times> fs_state" where
  "dir_add s dir name sec =
     (case dir of
        None \<Rightarrow> (False, s)
      | Some d \<Rightarrow>
          (let dsec = dir_sector s dir; ino = inodes s dsec in
           if i_entries ino name \<noteq> None then (False, s)
           else (case take_fault s of
                   (True, s') \<Rightarrow> (False, s')
                 | (False, s') \<Rightarrow>
                     (True, s'\<lparr>inodes := (inodes s')
                        (dsec := ino\<lparr>i_entries := (i_entries ino)(name \<mapsto> sec)\<rparr>)\<rparr>))))"

definition dir_remove :: "fs_state \<Rightarrow> nat option \<Rightarrow> string \<Rightarrow> bool \<times> fs_state" where
  "dir_remove s dir name =
     (case dir of
        None \<Rightarrow> (False, s)
      | Some d \<Rightarrow>
          (let dsec = dir_sector s dir; ino = inodes s dsec in
           if i_entries ino name = None then (False, s)
           else (True, s\<lparr>inodes := (inodes s)
                   (dsec := ino\<lparr>i_entries := (i_entries ino)(name := None)\<rparr>)\<rparr>)))"

subsection \<open>\<^verbatim>\<open>get_next_part\<close>\<close>

text \<open>The first loop, \<^verbatim>\<open>while (*src == '/') src++;\<close>.\<close>

fun skip_slashes :: "string \<Rightarrow> string" where
  "skip_slashes [] = []"
| "skip_slashes (c # cs) = (if c = CHR ''/'' then skip_slashes cs else c # cs)"

text \<open>
  The copy loop. \<open>dst\<close> is what has been written into \<^verbatim>\<open>part\<close> so far, so
  \<^verbatim>\<open>dst < part + NAME_MAX\<close> reads \<open>length dst < nmax\<close>. The result is \<open>False\<close> where
  the source returns -1 from inside the loop.
\<close>

fun copy_part :: "nat \<Rightarrow> string \<Rightarrow> string \<Rightarrow> bool \<times> string \<times> string" where
  "copy_part nmax dst [] = (True, dst, [])"
| "copy_part nmax dst (c # cs) =
     (if c = CHR ''/'' then (True, dst, c # cs)
      else if length dst < nmax then copy_part nmax (dst @ [c]) cs
      else (False, dst, c # cs))"

text \<open>
  The result is the return value, the contents of \<^verbatim>\<open>part\<close> and the value of \<^verbatim>\<open>*srcp\<close>
  after the call. \<^verbatim>\<open>*srcp\<close> is written only on the successful return. On -1 the
  buffer holds the characters copied so far, without terminator.
\<close>

definition get_next_part :: "nat \<Rightarrow> string \<Rightarrow> string \<Rightarrow> int \<times> string \<times> string" where
  "get_next_part nmax part srcp =
     (let src = skip_slashes srcp in
      if src = [] then (0, part, srcp)
      else (case copy_part nmax [] src of
              (False, dst, src') \<Rightarrow> (- 1, dst, srcp)
            | (True, dst, src') \<Rightarrow> (1, dst, src')))"

lemma copy_part_length:
  "copy_part nmax dst src = (ok, dst', src') \<Longrightarrow> length src' \<le> length src"
  by (induction nmax dst src rule: copy_part.induct) (auto split: if_splits)

lemma skip_slashes_length: "length (skip_slashes src) \<le> length src"
  by (induction src) auto

lemma skip_slashes_head: "skip_slashes src = c # cs \<Longrightarrow> c \<noteq> CHR ''/''"
  by (induction src) (auto split: if_splits)

lemma copy_part_progress:
  "copy_part nmax [] (c # cs) = (True, dst', src') \<Longrightarrow> c \<noteq> CHR ''/'' \<Longrightarrow>
   length src' < Suc (length cs)"
  by (auto split: if_splits dest: copy_part_length)

lemma get_next_part_shorter:
  assumes a: "get_next_part nmax part srcp = (1, part', srcp')"
  shows "length srcp' < length srcp"
proof -
  obtain c cs where sk: "skip_slashes srcp = c # cs"
    using a by (cases "skip_slashes srcp") (auto simp: get_next_part_def)
  have c: "c \<noteq> CHR ''/''" using sk by (rule skip_slashes_head)
  have "copy_part nmax [] (c # cs) = (True, part', srcp')"
    using a sk by (auto simp: get_next_part_def Let_def split: prod.splits bool.splits if_splits)
  then have "length srcp' < Suc (length cs)" using c by (rule copy_part_progress)
  moreover have "length (c # cs) \<le> length srcp" using skip_slashes_length [of srcp] sk by simp
  ultimately show ?thesis by simp
qed

lemma get_next_part_progress:
  "(r, part', srcp') = get_next_part nmax part srcp \<Longrightarrow> r \<noteq> - 1 \<Longrightarrow> r \<noteq> 0 \<Longrightarrow>
   length srcp' < length srcp"
  using get_next_part_shorter [of nmax part srcp part' srcp']
  by (auto simp: get_next_part_def Let_def split: prod.splits bool.splits if_splits)

subsection \<open>\<^verbatim>\<open>find_file\<close>\<close>

text \<open>
  What \<^verbatim>\<open>find_file\<close> hands back: its return value and the three output parameters
  \<^verbatim>\<open>filename\<close>, \<^verbatim>\<open>*cwd\<close> and \<^verbatim>\<open>*next_inode\<close>.
\<close>

record found =
  f_result :: int
  f_filename :: string
  f_cwd :: "nat option"
  f_next_inode :: "nat option"

text \<open>
  The \<^verbatim>\<open>while (true)\<close> loop. The variable \<^verbatim>\<open>result\<close> is -1 whenever the loop body is
  entered, since each assignment to it is followed by \<^verbatim>\<open>break\<close>; it is therefore not
  an argument. \<^verbatim>\<open>dir_lookup\<close> stores into \<^verbatim>\<open>*next_inode\<close> on a hit and on a miss.
\<close>

function find_file_loop ::
  "fs_config \<Rightarrow> fs_state \<Rightarrow> string \<Rightarrow> string \<Rightarrow> nat option \<Rightarrow> nat option \<Rightarrow> found \<times> fs_state" where
  "find_file_loop K s src filename cwd next_inode =
     (case get_next_part (NAME_MAX K) filename src of
        (part_result, filename', src') \<Rightarrow>
          if part_result = - 1 then
            (\<lparr>f_result = - 1, f_filename = filename', f_cwd = cwd, f_next_inode = next_inode\<rparr>, s)
          else if part_result = 0 then
            (\<lparr>f_result = - 1, f_filename = filename', f_cwd = cwd, f_next_inode = next_inode\<rparr>, s)
          else
            (case dir_lookup s cwd filename' of
               (None, s1) \<Rightarrow>
                 (\<lparr>f_result = (if src' = [] then 0 else - 1), f_filename = filename',
                   f_cwd = cwd, f_next_inode = None\<rparr>, s1)
             | (Some i, s1) \<Rightarrow>
                 if src' = [] then
                   (\<lparr>f_result = 1, f_filename = filename', f_cwd = cwd, f_next_inode = Some i\<rparr>, s1)
                 else
                   (case dir_open (dir_close s1 cwd) (Some i) of
                      (cwd', s2) \<Rightarrow> find_file_loop K s2 src' filename' cwd' (Some i))))"
  by pat_completeness auto
termination
  apply (relation "measure (\<lambda>(K, s, src, filename, cwd, next_inode). length src)")
   apply simp
  apply (auto dest: get_next_part_progress)
  done

definition find_file :: "fs_config \<Rightarrow> fs_state \<Rightarrow> string \<Rightarrow> found \<times> fs_state" where
  "find_file K s src =
     (case (if (case src of [] \<Rightarrow> False | c # _ \<Rightarrow> c = CHR ''/'')
            then dir_open_root K s
            else (case inode_open s (cwd_sector s) of (inode, s') \<Rightarrow> dir_open s' inode)) of
        (cwd, s0) \<Rightarrow> find_file_loop K s0 src [] cwd None)"

subsection \<open>\<^verbatim>\<open>filesys_create\<close>\<close>

text \<open>
  The block guarded by \<^verbatim>\<open>if (is_dir)\<close>: open the new directory, add \<^verbatim>\<open>"."\<close> and, only
  if that worked (\<^verbatim>\<open>&&\<close>), \<^verbatim>\<open>".."\<close>, close it.
\<close>

definition add_dot_entries :: "fs_state \<Rightarrow> nat option \<Rightarrow> sector \<Rightarrow> bool \<times> fs_state" where
  "add_dot_entries s parent_dir sec =
     (case inode_open s sec of (inode, s1) \<Rightarrow>
      case dir_open s1 inode of (new_dir, s2) \<Rightarrow>
      case dir_add s2 new_dir ''.'' sec of (ok1, s3) \<Rightarrow>
      case (if ok1
            then dir_add s3 new_dir ''..'' (inode_get_inumber s3 (dir_get_inode s3 parent_dir))
            else (False, s3)) of (ok2, s4) \<Rightarrow>
        (ok1 \<and> ok2, dir_close s4 new_dir))"

text \<open>
  \<^verbatim>\<open>res\<close> is declared \<^verbatim>\<open>bool\<close>, so it holds whether \<^verbatim>\<open>find_file\<close> returned
  something other than 0. The insertion into the parent is the right operand of
  \<^verbatim>\<open>&=\<close>, which is evaluated whatever \<^verbatim>\<open>success\<close> holds.
\<close>

definition filesys_create :: "fs_config \<Rightarrow> fs_state \<Rightarrow> string \<Rightarrow> int \<Rightarrow> bool \<Rightarrow> bool \<times> fs_state" where
  "filesys_create K s name initial_size is_dir =
     (case find_file K s name of (r, s1) \<Rightarrow>
      let res = (f_result r \<noteq> 0); parent_dir = f_cwd r; filename = f_filename r in
      if res then (False, dir_close s1 parent_dir)
      else if parent_dir = None then (False, s1)
      else (case free_map_allocate s1 of
              (None, s2) \<Rightarrow> (False, s2)
            | (Some sec, s2) \<Rightarrow>
                (case inode_create s2 sec initial_size is_dir of
                   (False, s3) \<Rightarrow> (False, free_map_release s3 sec)
                 | (True, s3) \<Rightarrow>
                     (case (if is_dir then add_dot_entries s3 parent_dir sec else (True, s3)) of
                        (success, s4) \<Rightarrow>
                     case dir_add s4 parent_dir filename sec of (added, s5) \<Rightarrow>
                     let success' = (success \<and> added); s6 = dir_close s5 parent_dir in
                     if \<not> success' then (False, free_map_release s6 sec) else (True, s6)))))"

subsection \<open>\<^verbatim>\<open>filesys_open\<close>\<close>

text \<open>
  The result of \<^verbatim>\<open>filesys_open\<close>: \<^verbatim>\<open>NULL\<close>, a directory handle (returned through the
  same pointer type), or a file.

  Modelled from the spec: \<^verbatim>\<open>file_open\<close> of \<^verbatim>\<open>file.c\<close>, which is not part of the sources
  at hand, yields an open file handle that owns the inode handle it is given.
\<close>

datatype file_ptr = Null | Dir_Handle nat | File_Handle nat

definition file_open :: "fs_state \<Rightarrow> nat option \<Rightarrow> file_ptr \<times> fs_state" where
  "file_open s inode = (case inode of None \<Rightarrow> (Null, s) | Some i \<Rightarrow> (File_Handle i, s))"

definition filesys_open :: "fs_config \<Rightarrow> fs_state \<Rightarrow> string \<Rightarrow> file_ptr \<times> fs_state" where
  "filesys_open K s name =
     (case find_file K s name of (r, s1) \<Rightarrow>
      let res = f_result r; dir = f_cwd r; inode = f_next_inode r; s2 = dir_close s1 dir in
      if res = 1 then
        (if inode_is_dir s2 inode
         then (case dir_open s2 inode of
                 (None, s3) \<Rightarrow> (Null, s3)
               | (Some d, s3) \<Rightarrow> (Dir_Handle d, s3))
         else file_open s2 inode)
      else (Null, inode_close s2 inode))"

subsection \<open>\<^verbatim>\<open>filesys_remove\<close>\<close>

text \<open>The name handed to \<^verbatim>\<open>dir_remove\<close> is the argument \<^verbatim>\<open>name\<close>, as in the source.\<close>

definition filesys_remove :: "fs_config \<Rightarrow> fs_state \<Rightarrow> string \<Rightarrow> bool \<times> fs_state" where
  "filesys_remove K s name =
     (case find_file K s name of (r, s1) \<Rightarrow>
      let res = f_result r; dir = f_cwd r; inode = f_next_inode r in
      case (if res = 1 \<and> inode_get_inumber s1 inode \<noteq> cwd_sector s1
            then (if dir \<noteq> None then dir_remove s1 dir name else (False, s1))
            else (False, s1)) of
        (success, s2) \<Rightarrow> (success, dir_close s2 dir))"

subsection \<open>\<^verbatim>\<open>filesys_change_dir\<close>\<close>

definition filesys_change_dir :: "fs_config \<Rightarrow> fs_state \<Rightarrow> string \<Rightarrow> bool \<times> fs_state" where
  "filesys_change_dir K s path =
     (case find_file K s path of (r, s1) \<Rightarrow>
      let res = f_result r; dir = f_cwd r; inode = f_next_inode r; s2 = dir_close s1 dir in
      case (if res = 1 \<and> inode_is_dir s2 inode
            then (True, s2\<lparr>cwd_sector := inode_get_inumber s2 inode\<rparr>)
            else (False, s2)) of
        (success, s3) \<Rightarrow> (success, inode_close s3 inode))"

subsection \<open>Paths as sequences of components\<close>

text \<open>
  The components of a path as the specification describes them: the path is cut at every
  separator, and the empty pieces (from leading, trailing and repeated separators) are
  dropped.
\<close>

fun split_path :: "string \<Rightarrow> string list" where
  "split_path [] = [[]]"
| "split_path (c # cs) =
     (if c = CHR ''/'' then [] # split_path cs
      else (case split_path cs of [] \<Rightarrow> [[c]] | w # ws \<Rightarrow> (c # w) # ws))"

definition components :: "string \<Rightarrow> string list" where
  "components p = filter (\<lambda>w. w \<noteq> []) (split_path p)"

definition ends_with_separator :: "string \<Rightarrow> bool" where
  "ends_with_separator p = (p \<noteq> [] \<and> last p = CHR ''/'')"

text \<open>What is left of a path behind its first component.\<close>

definition rest_after :: "string \<Rightarrow> string" where
  "rest_after src = dropWhile (\<lambda>c. c \<noteq> CHR ''/'') (skip_slashes src)"

text \<open>
  Repeated calls of \<^verbatim>\<open>get_next_part\<close> on one cursor and one buffer, as the loop of
  \<^verbatim>\<open>find_file\<close> makes them, until a call does not return 1: the parts produced, the
  return value of the last call, and the cursor after it.
\<close>

function parse_parts :: "nat \<Rightarrow> string \<Rightarrow> string \<Rightarrow> string list \<times> int \<times> string" where
  "parse_parts nmax part srcp =
     (case get_next_part nmax part srcp of
        (r, part', srcp') \<Rightarrow>
          if r = 1 then (case parse_parts nmax part' srcp' of (ps, e, c) \<Rightarrow> (part' # ps, e, c))
          else ([], r, srcp'))"
  by pat_completeness auto
termination
  apply (relation "measure (\<lambda>(nmax, part, srcp). length srcp)")
   apply simp
  apply (auto dest: get_next_part_progress)
  done

declare parse_parts.simps [simp del]
declare find_file_loop.simps [simp del]

subsection \<open>The resolver as the specification describes it\<close>

text \<open>
  The three outcomes. \<open>NotFoundAsLast d n\<close>: every component but the last resolved, to
  the directory in sector \<open>d\<close>, which has no entry for the last component \<open>n\<close>.
  \<open>FoundAsLast d n t\<close>: the last component \<open>n\<close> is an entry of the directory in sector
  \<open>d\<close> and refers to sector \<open>t\<close>.
\<close>

datatype outcome = Invalid | NotFoundAsLast sector string | FoundAsLast sector string sector

text \<open>
  The walk of the specification over the components of a path, from the directory in
  sector \<open>d\<close>. A component is the final one when no characters remain after it: it is
  the last component and the path does not go on with a separator (\<open>trailing\<close>).
\<close>

fun Resolve_walk :: "nat \<Rightarrow> (sector \<Rightarrow> inode_disk) \<Rightarrow> bool \<Rightarrow> sector \<Rightarrow> string list \<Rightarrow> outcome" where
  "Resolve_walk nmax ino trailing d [] = Invalid"
| "Resolve_walk nmax ino trailing d (c # cs) =
     (if nmax < length c then Invalid
      else (case i_entries (ino d) c of
              None \<Rightarrow> if cs = [] \<and> \<not> trailing then NotFoundAsLast d c else Invalid
            | Some t \<Rightarrow>
                if cs = [] \<and> \<not> trailing then FoundAsLast d c t
                else Resolve_walk nmax ino trailing t cs))"

definition is_absolute :: "string \<Rightarrow> bool" where
  "is_absolute p = (case p of [] \<Rightarrow> False | c # _ \<Rightarrow> c = CHR ''/'')"

definition start_sector :: "fs_config \<Rightarrow> fs_state \<Rightarrow> string \<Rightarrow> sector" where
  "start_sector K s p = (if is_absolute p then ROOT_DIR_SECTOR K else cwd_sector s)"

definition Resolve :: "fs_config \<Rightarrow> fs_state \<Rightarrow> string \<Rightarrow> outcome" where
  "Resolve K s p =
     Resolve_walk (NAME_MAX K) (inodes s) (ends_with_separator p) (start_sector K s p) (components p)"

text \<open>The outcome that a result of \<^verbatim>\<open>find_file\<close> stands for, read off the handles it carries.\<close>

definition outcome_of :: "found \<times> fs_state \<Rightarrow> outcome" where
  "outcome_of x =
     (case x of (r, s) \<Rightarrow>
        if f_result r = 0 then NotFoundAsLast (dir_sector s (f_cwd r)) (f_filename r)
        else if f_result r = 1
        then FoundAsLast (dir_sector s (f_cwd r)) (f_filename r)
               (inode_get_inumber s (f_next_inode r))
        else Invalid)"

text \<open>A directory handle that is open, over an inode handle that exists.\<close>

definition dir_live :: "fs_state \<Rightarrow> nat option \<Rightarrow> bool" where
  "dir_live s dir =
     (case dir of
        None \<Rightarrow> False
      | Some d \<Rightarrow> d < length (dir_handles s) \<and> snd (dir_handles s ! d) = 0
                  \<and> fst (dir_handles s ! d) < length (inode_handles s))"

text \<open>
  The state in which the loop of \<^verbatim>\<open>find_file\<close> starts: one inode handle on the start
  sector and one directory handle over it have been opened.
\<close>

definition start_state :: "fs_config \<Rightarrow> fs_state \<Rightarrow> string \<Rightarrow> fs_state" where
  "start_state K s p =
     s\<lparr>inode_handles := inode_handles s @ [(start_sector K s p, 0)],
       dir_handles := dir_handles s @ [(length (inode_handles s), 0)],
       dir_peak := max (dir_peak s) (Suc (live_dirs s))\<rparr>"

text \<open>What holds of the handles when the loop of \<^verbatim>\<open>find_file\<close>, entered in state \<open>s\<close>, is left.\<close>

definition exit_handles :: "fs_state \<Rightarrow> found \<times> fs_state \<Rightarrow> bool" where
  "exit_handles s x =
     (case x of (r, s') \<Rightarrow>
        dir_live s' (f_cwd r) \<and> live_dirs s' = live_dirs s
        \<and> dir_peak s' \<le> max (dir_peak s) (live_dirs s)
        \<and> (f_result r = - 1 \<or> f_result r = 0 \<or> f_result r = 1)
        \<and> (f_result r = 0 \<longrightarrow> f_next_inode r = None)
        \<and> (f_result r = 1 \<longrightarrow>
             (\<exists>i d. f_next_inode r = Some i \<and> f_cwd r = Some d \<and> Suc i = length (inode_handles s')
                \<and> snd (inode_handles s' ! i) = 0 \<and> fst (dir_handles s' ! d) < i)))"

subsection \<open>Conditions on the state\<close>


text \<open>
  The sectors that the namespace uses: the root directory, the working directory, and
  every sector that an entry of a directory among these refers to.
\<close>

inductive_set reachable :: "fs_config \<Rightarrow> fs_state \<Rightarrow> sector set" for K :: fs_config and s :: fs_state where
  root: "ROOT_DIR_SECTOR K \<in> reachable K s"
| cwd: "cwd_sector s \<in> reachable K s"
| entry: "d \<in> reachable K s \<Longrightarrow> i_entries (inodes s d) n = Some t \<Longrightarrow> t \<in> reachable K s"


text \<open>
  The handle tables of \<open>s'\<close> extend those of \<open>s\<close>: every handle of \<open>s\<close> is a handle
  of \<open>s'\<close> and refers to what it referred to.
\<close>

definition handles_kept :: "fs_state \<Rightarrow> fs_state \<Rightarrow> bool" where
  "handles_kept s s' =
     ((\<exists>xs. map fst (inode_handles s') = map fst (inode_handles s) @ xs)
      \<and> (\<exists>ys. map fst (dir_handles s') = map fst (dir_handles s) @ ys))"

subsection \<open>A small file system for examples\<close>

text \<open>
  Names of up to 14 characters; the root directory in sector 1. The root holds the
  directory \<open>a\<close> (sector 2, with its two fixed entries) and the file \<open>f\<close> (sector 3).
  Sectors 4 and 5 are free. The working directory is the root; no handle is open.
\<close>

definition K0 :: fs_config where
  "K0 = \<lparr>NAME_MAX = 14, ROOT_DIR_SECTOR = 1\<rparr>"

definition no_inode :: inode_disk where
  "no_inode = \<lparr>i_is_dir = False, i_length = 0, i_entries = Map.empty\<rparr>"

definition fs0 :: fs_state where
  "fs0 = \<lparr>cwd_sector = 1, free_map = [True, True, True, True, False, False],
     inodes = (\<lambda>_. no_inode)
       (1 := \<lparr>i_is_dir = True, i_length = 0, i_entries = [''a'' \<mapsto> 2, ''f'' \<mapsto> 3]\<rparr>,
        2 := \<lparr>i_is_dir = True, i_length = 0, i_entries = [''.'' \<mapsto> 2, ''..'' \<mapsto> 1]\<rparr>),
     inode_handles = [], dir_handles = [], dir_peak = 0, faults = []\<rparr>"

text \<open>
  The same file system when resources run short: in \<open>fs0_dot_fails\<close> the first fallible
  collaborator call succeeds and the second fails; in \<open>fs0_full\<close> no sector is free.
\<close>

definition fs0_dot_fails :: fs_state where
  "fs0_dot_fails = fs0\<lparr>faults := [False, True]\<rparr>"

definition fs0_full :: fs_state where
  "fs0_full = fs0\<lparr>free_map := [True, True, True, True]\<rparr>"



section \<open>The path parser\<close>

lemma split_path_nonempty: "split_path p \<noteq> []"
  by (induction p) (auto split: list.splits)

lemma components_Nil [simp]: "components [] = []"
  by (simp add: components_def)

lemma components_slash [simp]: "components (CHR ''/'' # cs) = components cs"
  by (simp add: components_def)

lemma components_skip_slashes [simp]: "components (skip_slashes p) = components p"
  by (induction p) auto

lemma skip_slashes_dropWhile: "skip_slashes p = dropWhile (\<lambda>c. c = CHR ''/'') p"
  by (induction p) auto

lemma split_path_takeWhile:
  "split_path p = takeWhile (\<lambda>c. c \<noteq> CHR ''/'') p #
     (case dropWhile (\<lambda>c. c \<noteq> CHR ''/'') p of [] \<Rightarrow> [] | _ # r \<Rightarrow> split_path r)"
  by (induction p) (auto split: list.splits simp: split_path_nonempty)

lemma components_word:
  assumes "c \<noteq> CHR ''/''"
  shows "components (c # cs) =
     (c # takeWhile (\<lambda>c. c \<noteq> CHR ''/'') cs) # components (dropWhile (\<lambda>c. c \<noteq> CHR ''/'') cs)"
proof -
  have "split_path (c # cs) = (c # takeWhile (\<lambda>c. c \<noteq> CHR ''/'') cs) #
     (case dropWhile (\<lambda>c. c \<noteq> CHR ''/'') cs of [] \<Rightarrow> [] | _ # r \<Rightarrow> split_path r)"
    using assms by (subst split_path_takeWhile) simp
  moreover have "filter (\<lambda>w. w \<noteq> [])
       (case dropWhile (\<lambda>c. c \<noteq> CHR ''/'') cs of [] \<Rightarrow> [] | _ # r \<Rightarrow> split_path r) =
     components (dropWhile (\<lambda>c. c \<noteq> CHR ''/'') cs)"
  proof (cases "dropWhile (\<lambda>c. c \<noteq> CHR ''/'') cs")
    case Nil
    show ?thesis unfolding Nil by simp
  next
    case (Cons d r)
    then have "d = CHR ''/''" using hd_dropWhile [of "\<lambda>c. c \<noteq> CHR ''/''" cs] by auto
    show ?thesis unfolding Cons \<open>d = CHR ''/''\<close> by (simp add: components_def)
  qed
  ultimately show ?thesis by (simp add: components_def)
qed

lemma copy_part_eq:
  "length dst \<le> nmax \<Longrightarrow> copy_part nmax dst src =
     (let w = takeWhile (\<lambda>c. c \<noteq> CHR ''/'') src in
      if length dst + length w \<le> nmax then (True, dst @ w, dropWhile (\<lambda>c. c \<noteq> CHR ''/'') src)
      else (False, dst @ take (nmax - length dst) w, drop (nmax - length dst) src))"
proof (induction nmax dst src rule: copy_part.induct)
  case (1 nmax dst)
  then show ?case by simp
next
  case (2 nmax dst c cs)
  show ?case
  proof (cases "c = CHR ''/''")
    case True
    then show ?thesis using 2 by simp
  next
    case False
    show ?thesis
    proof (cases "length dst < nmax")
      case True
      then have "nmax - length dst = Suc (nmax - Suc (length dst))" by simp
      then show ?thesis using 2 False True by (simp add: Let_def)
    next
      case False
      then have "length dst = nmax" using 2 by simp
      then show ?thesis using \<open>c \<noteq> CHR ''/''\<close> by simp
    qed
  qed
qed

lemma components_skip_cases:
  "components src = [] \<longleftrightarrow> skip_slashes src = []"
proof (cases "skip_slashes src")
  case Nil
  then show ?thesis using components_skip_slashes [of src] by simp
next
  case (Cons c cs)
  then have "c \<noteq> CHR ''/''" by (rule skip_slashes_head)
  then have "components (c # cs) \<noteq> []" by (simp add: components_word)
  then show ?thesis using Cons components_skip_slashes [of src] by simp
qed

lemma components_first:
  assumes "components src = w # ws"
  shows "w = takeWhile (\<lambda>c. c \<noteq> CHR ''/'') (skip_slashes src) \<and> ws = components (rest_after src)
         \<and> skip_slashes src \<noteq> []"
proof -
  obtain c cs where sk: "skip_slashes src = c # cs"
    using assms components_skip_cases [of src] by (cases "skip_slashes src") auto
  then have c: "c \<noteq> CHR ''/''" by (rule skip_slashes_head)
  have "components (c # cs) = w # ws" using assms sk components_skip_slashes [of src] by simp
  then show ?thesis using c sk by (simp add: components_word rest_after_def)
qed

lemma get_next_part_end:
  "components src = [] \<Longrightarrow> get_next_part nmax part src = (0, part, src)"
  by (simp add: get_next_part_def components_skip_cases)

lemma get_next_part_ok:
  assumes "components src = w # ws" "length w \<le> nmax"
  shows "get_next_part nmax part src = (1, w, rest_after src)"
  using components_first [OF assms(1)] assms(2)
  by (simp add: get_next_part_def copy_part_eq Let_def rest_after_def)

lemma get_next_part_too_long:
  assumes "components src = w # ws" "\<not> length w \<le> nmax"
  shows "get_next_part nmax part src = (- 1, take nmax w, src)"
  using components_first [OF assms(1)] assms(2)
  by (simp add: get_next_part_def copy_part_eq Let_def rest_after_def)

lemma skip_slashes_Nil_last: "skip_slashes p = [] \<Longrightarrow> p \<noteq> [] \<Longrightarrow> last p = CHR ''/''"
  by (induction p) (auto split: if_splits)

lemma path_decompose:
  "src = takeWhile (\<lambda>c. c = CHR ''/'') src @
         takeWhile (\<lambda>c. c \<noteq> CHR ''/'') (skip_slashes src) @ rest_after src"
  by (simp add: rest_after_def skip_slashes_dropWhile)

lemma word_last:
  assumes "components src = w # ws"
  shows "w \<noteq> [] \<and> last w \<noteq> CHR ''/''"
proof -
  have w: "w = takeWhile (\<lambda>c. c \<noteq> CHR ''/'') (skip_slashes src)" and ne: "skip_slashes src \<noteq> []"
    using components_first [OF assms] by simp_all
  obtain c cs where sk: "skip_slashes src = c # cs" using ne by (cases "skip_slashes src") auto
  then have "c \<noteq> CHR ''/''" by (rule skip_slashes_head)
  then have "w \<noteq> []" using w sk by simp
  moreover have "set w \<subseteq> {c. c \<noteq> CHR ''/''}" unfolding w using set_takeWhileD by fastforce
  ultimately have "w \<noteq> []" "last w \<in> {c. c \<noteq> CHR ''/''}"
    using last_in_set [of w] by blast+
  then show ?thesis by simp
qed

lemma rest_after_Nil:
  assumes "components src = w # ws"
  shows "rest_after src = [] \<longleftrightarrow> ws = [] \<and> \<not> ends_with_separator src"
proof
  assume r: "rest_after src = []"
  have ws: "ws = components (rest_after src)" and w: "w = takeWhile (\<lambda>c. c \<noteq> CHR ''/'') (skip_slashes src)"
    using components_first [OF assms] by simp_all
  have "src = takeWhile (\<lambda>c. c = CHR ''/'') src @ w"
    using path_decompose [of src] r w by simp
  then have "last src = last w" using word_last [OF assms] by (metis last_appendR)
  then show "ws = [] \<and> \<not> ends_with_separator src"
    using ws r word_last [OF assms] by (simp add: ends_with_separator_def)
next
  assume a: "ws = [] \<and> \<not> ends_with_separator src"
  have ws: "ws = components (rest_after src)"
    using components_first [OF assms] by simp
  show "rest_after src = []"
  proof (rule ccontr)
    assume ne: "rest_after src \<noteq> []"
    have "skip_slashes (rest_after src) = []" using a ws components_skip_cases by simp
    then have l: "last (rest_after src) = CHR ''/''" using ne by (rule skip_slashes_Nil_last)
    have "last src = last (rest_after src)"
      using ne path_decompose [of src] by (metis last_appendR append_is_Nil_conv)
    then show False using a l ne path_decompose [of src]
      by (auto simp: ends_with_separator_def)
  qed
qed

lemma rest_after_ends:
  assumes "rest_after src \<noteq> []"
  shows "ends_with_separator (rest_after src) = ends_with_separator src"
proof -
  have "last src = last (rest_after src)"
    using assms path_decompose [of src] by (metis last_appendR append_is_Nil_conv)
  moreover have "src \<noteq> []" using assms path_decompose [of src] by auto
  ultimately show ?thesis using assms by (simp add: ends_with_separator_def)
qed


lemma rest_after_shorter: "components src = w # ws \<Longrightarrow> length (rest_after src) < length src"
  using get_next_part_ok [of src w ws "length w" "[]"] get_next_part_shorter by fastforce

lemma parse_parts_eq:
  "parse_parts nmax part p =
     (takeWhile (\<lambda>w. length w \<le> nmax) (components p),
      (if \<forall>w\<in>set (components p). length w \<le> nmax then 0 else - 1),
      snd (snd (parse_parts nmax part p)))
   \<and> components (snd (snd (parse_parts nmax part p))) =
       dropWhile (\<lambda>w. length w \<le> nmax) (components p)"
proof (induction "length p" arbitrary: p part rule: less_induct)
  case less
  show ?case
  proof (cases "components p")
    case Nil
    then show ?thesis
      by (subst (1 2 3) parse_parts.simps) (simp add: get_next_part_end)
  next
    case (Cons w ws)
    show ?thesis
    proof (cases "length w \<le> nmax")
      case True
      have ws: "components (rest_after p) = ws" using components_first [OF Cons] by simp
      have ih: "parse_parts nmax w (rest_after p) =
          (takeWhile (\<lambda>w. length w \<le> nmax) ws,
           (if \<forall>w\<in>set ws. length w \<le> nmax then 0 else - 1),
           snd (snd (parse_parts nmax w (rest_after p))))
        \<and> components (snd (snd (parse_parts nmax w (rest_after p)))) =
            dropWhile (\<lambda>w. length w \<le> nmax) ws"
        using less [OF rest_after_shorter [OF Cons], of w] ws by simp
      have unf: "parse_parts nmax part p =
          (case parse_parts nmax w (rest_after p) of (ps, e, c) \<Rightarrow> (w # ps, e, c))"
        by (subst parse_parts.simps) (simp add: get_next_part_ok [OF Cons True])
      show ?thesis unfolding unf using ih Cons True
        by (cases "parse_parts nmax w (rest_after p)") auto
    next
      case False
      then show ?thesis using Cons
        by (subst (1 2 3) parse_parts.simps) (auto simp add: get_next_part_too_long [OF Cons False])
    qed
  qed
qed

lemma only_separators: "set p \<subseteq> {CHR ''/''} \<Longrightarrow> components p = []"
  by (induction p) auto


lemma split_path_append:
  "split_path (u @ CHR ''/'' # v) = split_path u @ split_path v"
  by (induction u) (auto split: list.splits simp: split_path_nonempty)

lemma components_append: "components (u @ CHR ''/'' # v) = components u @ components v"
  by (simp add: components_def split_path_append)

lemma components_repeated:
  "components (u @ CHR ''/'' # CHR ''/'' # v) = components (u @ CHR ''/'' # v)"
  by (simp add: components_append)

lemma ends_repeated:
  "ends_with_separator (u @ CHR ''/'' # CHR ''/'' # v) = ends_with_separator (u @ CHR ''/'' # v)"
  by (cases v) (simp_all add: ends_with_separator_def)

lemma is_absolute_repeated:
  "is_absolute (u @ CHR ''/'' # CHR ''/'' # v) = is_absolute (u @ CHR ''/'' # v)"
  by (cases u) (simp_all add: is_absolute_def)


section \<open>The resolver\<close>

lemma get_next_part_cases:
  obtains (End) "components src = []" "get_next_part nmax part src = (0, part, src)"
  | (Too_Long) w ws where "components src = w # ws" "nmax < length w"
      "get_next_part nmax part src = (- 1, take nmax w, src)"
  | (Part) w ws where "components src = w # ws" "length w \<le> nmax"
      "get_next_part nmax part src = (1, w, rest_after src)"
proof (cases "components src")
  case Nil
  then show ?thesis using End get_next_part_end by blast
next
  case (Cons w ws)
  then show ?thesis
    using Too_Long [of w ws] Part [of w ws] get_next_part_too_long [OF Cons, of nmax part]
      get_next_part_ok [OF Cons, of nmax part]
    by (cases "length w \<le> nmax") auto
qed

lemma filter_update_drop:
  "k < length xs \<Longrightarrow> P (xs ! k) \<Longrightarrow> \<not> P y \<Longrightarrow>
   Suc (length (filter P (xs[k := y]))) = length (filter P xs)"
proof (induction xs arbitrary: k)
  case Nil
  then show ?case by simp
next
  case (Cons x xs)
  then show ?case by (cases k) auto
qed

lemma dir_lookup_miss:
  "dir_live s cwd \<Longrightarrow> i_entries (inodes s (dir_sector s cwd)) name = None \<Longrightarrow>
   dir_lookup s cwd name = (None, s)"
  by (auto simp: dir_lookup_def dir_live_def split: option.splits)

lemma dir_lookup_hit:
  "dir_live s cwd \<Longrightarrow> i_entries (inodes s (dir_sector s cwd)) name = Some t \<Longrightarrow>
   dir_lookup s cwd name =
     (Some (length (inode_handles s)), s\<lparr>inode_handles := inode_handles s @ [(t, 0)]\<rparr>)"
  by (auto simp: dir_lookup_def dir_live_def inode_open_def split: option.splits)

text \<open>
  One turn of the loop that goes on: what closing the current directory and opening the
  next one does to the state.
\<close>

lemma step_state:
  assumes live: "dir_live s cwd"
    and s1: "s1 = s\<lparr>inode_handles := inode_handles s @ [(t, 0)]\<rparr>"
    and op: "dir_open (dir_close s1 cwd) (Some (length (inode_handles s))) = (cwd', s2)"
  shows "dir_live s2 cwd'" "dir_sector s2 cwd' = t" "inodes s2 = inodes s"
    "free_map s2 = free_map s" "cwd_sector s2 = cwd_sector s" "faults s2 = faults s"
    "live_dirs s2 = live_dirs s" "dir_peak s2 = max (dir_peak s) (live_dirs s)"
    "length (inode_handles s2) = Suc (length (inode_handles s))"
    "cwd' = Some (length (dir_handles s))" "length (dir_handles s2) = Suc (length (dir_handles s))"
    "take (length (dir_handles s)) (dir_handles s2) = (dir_handles s)[the cwd := (fst (dir_handles s ! the cwd), 1)]"
proof -
  obtain d where d: "cwd = Some d" using live by (cases cwd) (auto simp: dir_live_def)
  have dl: "d < length (dir_handles s)" "snd (dir_handles s ! d) = 0"
     "fst (dir_handles s ! d) < length (inode_handles s)"
    using live d by (simp_all add: dir_live_def)
  let ?j = "fst (dir_handles s ! d)"
  have s2: "s2 = s\<lparr>inode_handles := (inode_handles s @ [(t, 0)])
                      [?j := (fst (inode_handles s ! ?j), Suc (snd (inode_handles s ! ?j)))],
                  dir_handles := (dir_handles s)[d := (?j, 1)] @ [(length (inode_handles s), 0)],
                  dir_peak := max (dir_peak s) (live_dirs s)\<rparr>"
    and c: "cwd' = Some (length (dir_handles s))"
    using op dl filter_update_drop [of d "dir_handles s" "\<lambda>h. snd h = 0" "(?j, 1)"]
    unfolding s1 d 
    by (auto simp: dir_open_def dir_close_def inode_close_def Let_def live_dirs_def nth_append)
  show "dir_live s2 cwd'" unfolding s2 c using dl by (simp add: dir_live_def nth_append)
  show "dir_sector s2 cwd' = t" unfolding s2 c using dl
    by (simp add: dir_sector_def dir_get_inode_def inode_get_inumber_def inode_sector_def nth_append)
  show "inodes s2 = inodes s" "free_map s2 = free_map s" "cwd_sector s2 = cwd_sector s"
    "faults s2 = faults s" "dir_peak s2 = max (dir_peak s) (live_dirs s)"
    "length (inode_handles s2) = Suc (length (inode_handles s))"
    "length (dir_handles s2) = Suc (length (dir_handles s))"
    unfolding s2 by simp_all
  show "cwd' = Some (length (dir_handles s))" by (rule c)
  show "live_dirs s2 = live_dirs s" unfolding s2
    using dl filter_update_drop [of d "dir_handles s" "\<lambda>h. snd h = 0" "(?j, 1)"]
    by (simp add: live_dirs_def)
  show "take (length (dir_handles s)) (dir_handles s2) = (dir_handles s)[the cwd := (fst (dir_handles s ! the cwd), 1)]"
    unfolding s2 d by simp
qed


lemma find_file_loop_stop:
  "get_next_part (NAME_MAX K) fn src = (r, fn', src') \<Longrightarrow> r = 0 \<or> r = - 1 \<Longrightarrow>
   find_file_loop K s src fn cwd ni =
     (\<lparr>f_result = - 1, f_filename = fn', f_cwd = cwd, f_next_inode = ni\<rparr>, s)"
  by (subst find_file_loop.simps) auto

lemma find_file_loop_miss:
  "get_next_part (NAME_MAX K) fn src = (1, fn', src') \<Longrightarrow> dir_lookup s cwd fn' = (None, s1) \<Longrightarrow>
   find_file_loop K s src fn cwd ni =
     (\<lparr>f_result = (if src' = [] then 0 else - 1), f_filename = fn', f_cwd = cwd,
       f_next_inode = None\<rparr>, s1)"
  by (subst find_file_loop.simps) simp

lemma find_file_loop_hit_last:
  "get_next_part (NAME_MAX K) fn src = (1, fn', []) \<Longrightarrow> dir_lookup s cwd fn' = (Some i, s1) \<Longrightarrow>
   find_file_loop K s src fn cwd ni =
     (\<lparr>f_result = 1, f_filename = fn', f_cwd = cwd, f_next_inode = Some i\<rparr>, s1)"
  by (subst find_file_loop.simps) simp

lemma find_file_loop_hit_more:
  "get_next_part (NAME_MAX K) fn src = (1, fn', src') \<Longrightarrow> src' \<noteq> [] \<Longrightarrow>
   dir_lookup s cwd fn' = (Some i, s1) \<Longrightarrow> dir_open (dir_close s1 cwd) (Some i) = (cwd', s2) \<Longrightarrow>
   find_file_loop K s src fn cwd ni = find_file_loop K s2 src' fn' cwd' (Some i)"
  by (subst find_file_loop.simps) simp

lemma find_file_loop_induct [consumes 1, case_names Stop Miss Hit_Last Hit_More]:
  assumes live: "dir_live s cwd"
    and Stop: "\<And>s src fn cwd ni r fn'. dir_live s cwd \<Longrightarrow>
        get_next_part (NAME_MAX K) fn src = (r, fn', src) \<Longrightarrow> r = 0 \<or> r = - 1 \<Longrightarrow>
        (components src = [] \<or> (\<exists>w ws. components src = w # ws \<and> NAME_MAX K < length w)) \<Longrightarrow>
        P s src fn cwd ni (\<lparr>f_result = - 1, f_filename = fn', f_cwd = cwd, f_next_inode = ni\<rparr>, s)"
    and Miss: "\<And>s src fn cwd ni w ws. dir_live s cwd \<Longrightarrow>
        components src = w # ws \<Longrightarrow> length w \<le> NAME_MAX K \<Longrightarrow>
        i_entries (inodes s (dir_sector s cwd)) w = None \<Longrightarrow>
        P s src fn cwd ni
          (\<lparr>f_result = (if rest_after src = [] then 0 else - 1), f_filename = w, f_cwd = cwd,
            f_next_inode = None\<rparr>, s)"
    and Hit_Last: "\<And>s src fn cwd ni w ws t. dir_live s cwd \<Longrightarrow>
        components src = w # ws \<Longrightarrow> length w \<le> NAME_MAX K \<Longrightarrow>
        i_entries (inodes s (dir_sector s cwd)) w = Some t \<Longrightarrow> rest_after src = [] \<Longrightarrow>
        P s src fn cwd ni
          (\<lparr>f_result = 1, f_filename = w, f_cwd = cwd,
            f_next_inode = Some (length (inode_handles s))\<rparr>,
           s\<lparr>inode_handles := inode_handles s @ [(t, 0)]\<rparr>)"
    and Hit_More: "\<And>s src fn cwd ni w ws t cwd' s2 x. dir_live s cwd \<Longrightarrow>
        components src = w # ws \<Longrightarrow> length w \<le> NAME_MAX K \<Longrightarrow>
        i_entries (inodes s (dir_sector s cwd)) w = Some t \<Longrightarrow> rest_after src \<noteq> [] \<Longrightarrow>
        dir_open (dir_close (s\<lparr>inode_handles := inode_handles s @ [(t, 0)]\<rparr>) cwd)
          (Some (length (inode_handles s))) = (cwd', s2) \<Longrightarrow>
        dir_live s2 cwd' \<Longrightarrow>
        P s2 (rest_after src) w cwd' (Some (length (inode_handles s))) x \<Longrightarrow>
        P s src fn cwd ni x"
  shows "P s src fn cwd ni (find_file_loop K s src fn cwd ni)"
  using live
proof (induction "length src" arbitrary: s src fn cwd ni rule: less_induct)
  case less
  note live = \<open>dir_live s cwd\<close>
  show ?case
  proof (cases rule: get_next_part_cases [where src = src and nmax = "NAME_MAX K" and part = fn])
    case End
    show ?thesis
      unfolding find_file_loop_stop [OF End(2), of s cwd ni, simplified]
      using Stop [OF live End(2)] End(1) by simp
  next
    case (Too_Long w ws)
    show ?thesis
      unfolding find_file_loop_stop [OF Too_Long(3), of s cwd ni, simplified]
      using Stop [OF live Too_Long(3)] Too_Long(1,2) by simp
  next
    case (Part w ws)
    show ?thesis
    proof (cases "i_entries (inodes s (dir_sector s cwd)) w")
      case None
      show ?thesis
        unfolding find_file_loop_miss [OF Part(3) dir_lookup_miss [OF live None]]
        using Miss [OF live Part(1,2) None] .
    next
      case (Some t)
      note hit = dir_lookup_hit [OF live Some]
      show ?thesis
      proof (cases "rest_after src = []")
        case True
        show ?thesis
          unfolding find_file_loop_hit_last [OF Part(3) [unfolded True] hit]
          using Hit_Last [OF live Part(1,2) Some True] .
      next
        case False
        obtain cwd' s2 where op:
          "dir_open (dir_close (s\<lparr>inode_handles := inode_handles s @ [(t, 0)]\<rparr>) cwd)
             (Some (length (inode_handles s))) = (cwd', s2)"
          by (cases "dir_open (dir_close (s\<lparr>inode_handles := inode_handles s @ [(t, 0)]\<rparr>) cwd)
             (Some (length (inode_handles s)))") blast
        have live2: "dir_live s2 cwd'" using step_state(1) [OF live refl op] .
        have "P s2 (rest_after src) w cwd' (Some (length (inode_handles s)))
                (find_file_loop K s2 (rest_after src) w cwd' (Some (length (inode_handles s))))"
          using less(1) [OF rest_after_shorter [OF Part(1)] live2] .
        then show ?thesis
          unfolding find_file_loop_hit_more [OF Part(3) False hit op]
          using Hit_More [OF live Part(1,2) Some False op live2] by blast
      qed
    qed
  qed
qed


lemma find_file_loop_outcome:
  assumes "dir_live s cwd"
  shows "outcome_of (find_file_loop K s src fn cwd ni) =
     Resolve_walk (NAME_MAX K) (inodes s) (ends_with_separator src) (dir_sector s cwd) (components src)"
proof (rule find_file_loop_induct [OF assms, where K = K and P = "\<lambda>s src fn cwd ni x.
    outcome_of x = Resolve_walk (NAME_MAX K) (inodes s) (ends_with_separator src)
      (dir_sector s cwd) (components src)"], goal_cases)
  case (1 s src fn cwd ni r fn')
  then show ?case by (auto simp: outcome_of_def)
next
  case (2 s src fn cwd ni w ws)
  then show ?case using rest_after_Nil [OF 2(2)] by (auto simp: outcome_of_def)
next
  case (3 s src fn cwd ni w ws t)
  obtain d where d: "cwd = Some d" using 3(1) by (cases cwd) (auto simp: dir_live_def)
  have "dir_sector (s\<lparr>inode_handles := inode_handles s @ [(t, 0)]\<rparr>) cwd = dir_sector s cwd"
    using 3(1) unfolding d
    by (simp add: dir_live_def dir_sector_def dir_get_inode_def inode_get_inumber_def
        inode_sector_def nth_append)
  moreover have "inode_get_inumber (s\<lparr>inode_handles := inode_handles s @ [(t, 0)]\<rparr>)
      (Some (length (inode_handles s))) = t"
    by (simp add: inode_get_inumber_def inode_sector_def)
  ultimately show ?case using 3 rest_after_Nil [OF 3(2)]
    by (simp add: outcome_of_def)
next
  case (4 s src fn cwd ni w ws t cwd' s2 x)
  note st = step_state [OF 4(1) refl 4(6)]
  have ws: "components (rest_after src) = ws" using components_first [OF 4(2)] by simp
  have "\<not> (ws = [] \<and> \<not> ends_with_separator src)"
    using rest_after_Nil [OF 4(2)] 4(5) by simp
  then show ?case
    using 4(2,3,4,8) st(2,3) ws rest_after_ends [OF 4(5)] by simp
qed

lemma find_file_loop_frame:
  assumes "dir_live s cwd"
  shows "inodes (snd (find_file_loop K s src fn cwd ni)) = inodes s
    \<and> free_map (snd (find_file_loop K s src fn cwd ni)) = free_map s
    \<and> cwd_sector (snd (find_file_loop K s src fn cwd ni)) = cwd_sector s
    \<and> faults (snd (find_file_loop K s src fn cwd ni)) = faults s"
proof (rule find_file_loop_induct [OF assms, where K = K and P = "\<lambda>s src fn cwd ni x.
    inodes (snd x) = inodes s \<and> free_map (snd x) = free_map s
    \<and> cwd_sector (snd x) = cwd_sector s \<and> faults (snd x) = faults s"], goal_cases)
  case (4 s src fn cwd ni w ws t cwd' s2 x)
  note st = step_state [OF 4(1) refl 4(6)]
  show ?case using 4(8) st(3-6) by simp
qed simp_all

lemma find_file_loop_handles:
  assumes "dir_live s cwd"
  shows "exit_handles s (find_file_loop K s src fn cwd ni)"
proof (rule find_file_loop_induct [OF assms, where K = K and P = "\<lambda>s src fn cwd ni x.
    exit_handles s x"], goal_cases)
  case (1 s src fn cwd ni r fn')
  then show ?case by (simp add: exit_handles_def)
next
  case (2 s src fn cwd ni w ws)
  then show ?case by (simp add: exit_handles_def)
next
  case (3 s src fn cwd ni w ws t)
  then show ?case
    by (auto simp: exit_handles_def dir_live_def live_dirs_def split: option.splits)
next
  case (4 s src fn cwd ni w ws t cwd' s2 x)
  note st = step_state [OF 4(1) refl 4(6)]
  show ?case using 4(8) st(7,8) by (auto simp: exit_handles_def)
qed


lemma find_file_start:
  "find_file K s p =
     find_file_loop K (start_state K s p) p [] (Some (length (dir_handles s))) None"
  by (simp add: find_file_def dir_open_root_def inode_open_def dir_open_def start_state_def
      start_sector_def is_absolute_def live_dirs_def Let_def)

lemma start_state_live: "dir_live (start_state K s p) (Some (length (dir_handles s)))"
  by (simp add: dir_live_def start_state_def)

lemma start_state_sector:
  "dir_sector (start_state K s p) (Some (length (dir_handles s))) = start_sector K s p"
  by (simp add: dir_sector_def dir_get_inode_def inode_get_inumber_def inode_sector_def
      start_state_def)

lemma start_state_fields [simp]:
  "inodes (start_state K s p) = inodes s" "free_map (start_state K s p) = free_map s"
  "cwd_sector (start_state K s p) = cwd_sector s" "faults (start_state K s p) = faults s"
  "live_dirs (start_state K s p) = Suc (live_dirs s)"
  "dir_peak (start_state K s p) = max (dir_peak s) (Suc (live_dirs s))"
  by (simp_all add: start_state_def live_dirs_def)

lemma find_file_outcome: "outcome_of (find_file K s p) = Resolve K s p"
  unfolding find_file_start Resolve_def
  using find_file_loop_outcome [OF start_state_live [of K s p], where K = K and src = p and fn = "[]" and ni = None]
  by (simp add: start_state_sector)

lemma find_file_frame:
  assumes "find_file K s p = (r, s')"
  shows "inodes s' = inodes s" "free_map s' = free_map s" "cwd_sector s' = cwd_sector s"
    "faults s' = faults s"
  using find_file_loop_frame [OF start_state_live [of K s p], where K = K and src = p and fn = "[]" and ni = None] assms
  unfolding find_file_start by simp_all

lemma find_file_handles:
  "exit_handles (start_state K s p) (find_file K s p)"
  unfolding find_file_start using find_file_loop_handles [OF start_state_live [of K s p]] .


lemma Resolve_walk_not_found:
  "Resolve_walk nmax ino tr d cs = NotFoundAsLast d' n \<Longrightarrow>
   i_entries (ino d') n = None \<and> cs \<noteq> [] \<and> n = last cs \<and> \<not> tr \<and> length n \<le> nmax"
  by (induction cs arbitrary: d) (auto split: if_splits option.splits)

lemma Resolve_walk_found:
  "Resolve_walk nmax ino tr d cs = FoundAsLast d' n t \<Longrightarrow>
   i_entries (ino d') n = Some t \<and> cs \<noteq> [] \<and> n = last cs \<and> \<not> tr \<and> length n \<le> nmax"
  by (induction cs arbitrary: d) (auto split: if_splits option.splits)

lemma Resolve_walk_too_long:
  "\<exists>w\<in>set cs. nmax < length w \<Longrightarrow> Resolve_walk nmax ino tr d cs = Invalid"
proof (induction cs arbitrary: d)
  case Nil
  then show ?case by simp
next
  case (Cons c cs)
  show ?case
  proof (cases "nmax < length c")
    case True
    then show ?thesis by simp
  next
    case False
    then have ex: "\<exists>w\<in>set cs. nmax < length w" using Cons.prems by auto
    then have "cs \<noteq> []" by auto
    then show ?thesis using Cons.IH [OF ex] False by (simp split: option.splits)
  qed
qed

lemma Resolve_walk_trailing: "Resolve_walk nmax ino True d cs = Invalid"
  by (induction cs arbitrary: d) (auto split: option.splits)

lemma outcome_of_Invalid:
  "outcome_of (r, s) = Invalid \<longleftrightarrow> f_result r \<noteq> 0 \<and> f_result r \<noteq> 1"
  by (simp add: outcome_of_def)

lemma outcome_of_not_found:
  "outcome_of (r, s) = NotFoundAsLast d n \<longleftrightarrow>
   f_result r = 0 \<and> dir_sector s (f_cwd r) = d \<and> f_filename r = n"
  by (auto simp add: outcome_of_def)

lemma outcome_of_found:
  "outcome_of (r, s) = FoundAsLast d n t \<longleftrightarrow>
   f_result r = 1 \<and> dir_sector s (f_cwd r) = d \<and> f_filename r = n
   \<and> inode_get_inumber s (f_next_inode r) = t"
  by (auto simp add: outcome_of_def)

lemma find_file_result_cases:
  assumes "find_file K s p = (r, s')"
  shows "f_result r = - 1 \<and> Resolve K s p = Invalid
    \<or> f_result r = 0 \<and> Resolve K s p = NotFoundAsLast (dir_sector s' (f_cwd r)) (f_filename r)
    \<or> f_result r = 1 \<and> Resolve K s p =
         FoundAsLast (dir_sector s' (f_cwd r)) (f_filename r) (inode_get_inumber s' (f_next_inode r))"
  using find_file_outcome [of K s p] find_file_handles [of K s p] assms
  by (auto simp: outcome_of_def exit_handles_def)


lemma find_file_loop_own_handles:
  assumes "dir_live s cwd"
  shows "(\<exists>c. cwd = Some c \<and> n \<le> c) \<longrightarrow> n \<le> length (dir_handles s) \<longrightarrow>
     (\<exists>d. f_cwd (fst (find_file_loop K s src fn cwd ni)) = Some d \<and> n \<le> d)
     \<and> take n (dir_handles (snd (find_file_loop K s src fn cwd ni))) = take n (dir_handles s)"
proof (rule find_file_loop_induct [OF assms, where K = K and P = "\<lambda>s src fn cwd ni x.
    (\<exists>c. cwd = Some c \<and> n \<le> c) \<longrightarrow> n \<le> length (dir_handles s) \<longrightarrow>
     (\<exists>d. f_cwd (fst x) = Some d \<and> n \<le> d) \<and> take n (dir_handles (snd x)) = take n (dir_handles s)"],
    goal_cases)
  case (4 s src fn cwd ni w ws t cwd' s2 x)
  note st = step_state [OF 4(1) refl 4(6)]
  show ?case
  proof (intro impI)
    assume c: "\<exists>c. cwd = Some c \<and> n \<le> c" and n: "n \<le> length (dir_handles s)"
    then obtain c where cc: "cwd = Some c" "n \<le> c" by blast
    have "take n (dir_handles s2) = take n (take (length (dir_handles s)) (dir_handles s2))"
      using n by (simp add: min_def)
    also have "\<dots> = take n (dir_handles s)"
      unfolding st(12) using cc by simp
    finally have tk: "take n (dir_handles s2) = take n (dir_handles s)" .
    have "(\<exists>d. f_cwd (fst x) = Some d \<and> n \<le> d) \<and> take n (dir_handles (snd x)) = take n (dir_handles s2)"
      using 4(8) st(10,11) n by simp
    then show "(\<exists>d. f_cwd (fst x) = Some d \<and> n \<le> d) \<and> take n (dir_handles (snd x)) = take n (dir_handles s)"
      using tk by simp
  qed
qed simp_all

lemma find_file_own_handles:
  assumes "find_file K s p = (r, s')"
  shows "\<exists>d. f_cwd r = Some d \<and> length (dir_handles s) \<le> d"
    and "take (length (dir_handles s)) (dir_handles s') = dir_handles s"
  using find_file_loop_own_handles [OF start_state_live [of K s p],
      where K = K and src = p and fn = "[]" and ni = None and n = "length (dir_handles s)"] assms
  unfolding find_file_start by (simp_all add: start_state_def)

lemma dir_close_live:
  assumes "dir_live s dir"
  shows "Suc (live_dirs (dir_close s dir)) = live_dirs s"
proof -
  obtain d where d: "dir = Some d" using assms by (cases dir) (auto simp: dir_live_def)
  have dl: "d < length (dir_handles s)" "snd (dir_handles s ! d) = 0"
    using assms d by (simp_all add: dir_live_def)
  show ?thesis unfolding d
    using dl filter_update_drop [of d "dir_handles s" "\<lambda>h. snd h = 0"
        "(fst (dir_handles s ! d), Suc 0)"]
    by (simp add: dir_close_def inode_close_def live_dirs_def)
qed


lemma find_file_loop_same_components:
  assumes "dir_live s cwd"
  shows "\<forall>src2. components src2 = components src \<and>
       ends_with_separator src2 = ends_with_separator src \<longrightarrow>
     find_file_loop K s src2 fn cwd ni = find_file_loop K s src fn cwd ni"
proof (rule find_file_loop_induct [OF assms, where K = K and P = "\<lambda>s src fn cwd ni x.
    \<forall>src2. components src2 = components src \<and>
       ends_with_separator src2 = ends_with_separator src \<longrightarrow>
     find_file_loop K s src2 fn cwd ni = x"], goal_cases)
  case (1 s src fn cwd ni r fn')
  show ?case
  proof (intro allI impI)
    fix src2
    assume a: "components src2 = components src \<and>
       ends_with_separator src2 = ends_with_separator src"
    from 1(4) show "find_file_loop K s src2 fn cwd ni =
       (\<lparr>f_result = - 1, f_filename = fn', f_cwd = cwd, f_next_inode = ni\<rparr>, s)"
    proof
      assume e: "components src = []"
      have e2: "components src2 = []" using a e by simp
      have fn: "fn' = fn" using 1(2) get_next_part_end [OF e, of "NAME_MAX K" fn] by simp
      have gp: "get_next_part (NAME_MAX K) fn src2 = (0, fn, src2)"
        using e2 by (rule get_next_part_end)
      show ?thesis unfolding fn by (rule find_file_loop_stop [OF gp]) simp
    next
      assume "\<exists>w ws. components src = w # ws \<and> NAME_MAX K < length w"
      then obtain w ws where w: "components src = w # ws" "NAME_MAX K < length w" by blast
      have w2: "components src2 = w # ws" using a w by simp
      have nl: "\<not> length w \<le> NAME_MAX K" using w(2) by simp
      have fn: "fn' = take (NAME_MAX K) w"
        using 1(2) get_next_part_too_long [OF w(1) nl, of fn] by simp
      have gp: "get_next_part (NAME_MAX K) fn src2 = (- 1, take (NAME_MAX K) w, src2)"
        using w2 nl by (rule get_next_part_too_long)
      show ?thesis unfolding fn by (rule find_file_loop_stop [OF gp]) simp
    qed
  qed
next
  case (2 s src fn cwd ni w ws)
  show ?case
  proof (intro allI impI)
    fix src2
    assume a: "components src2 = components src \<and>
       ends_with_separator src2 = ends_with_separator src"
    then have c2: "components src2 = w # ws" using 2(2) by simp
    have r: "(rest_after src2 = []) = (rest_after src = [])"
      using rest_after_Nil [OF c2] rest_after_Nil [OF 2(2)] a by simp
    have gp: "get_next_part (NAME_MAX K) fn src2 = (1, w, rest_after src2)"
      using c2 2(3) by (rule get_next_part_ok)
    have lk: "dir_lookup s cwd w = (None, s)" using 2(1) 2(4) by (rule dir_lookup_miss)
    show "find_file_loop K s src2 fn cwd ni =
       (\<lparr>f_result = if rest_after src = [] then 0 else - 1, f_filename = w, f_cwd = cwd,
          f_next_inode = None\<rparr>, s)"
      unfolding find_file_loop_miss [OF gp lk] r ..
  qed
next
  case (3 s src fn cwd ni w ws t)
  show ?case
  proof (intro allI impI)
    fix src2
    assume a: "components src2 = components src \<and>
       ends_with_separator src2 = ends_with_separator src"
    then have c2: "components src2 = w # ws" using 3(2) by simp
    have r: "rest_after src2 = []"
      using rest_after_Nil [OF c2] rest_after_Nil [OF 3(2)] a 3(5) by simp
    have gp: "get_next_part (NAME_MAX K) fn src2 = (1, w, [])"
      using get_next_part_ok [OF c2 3(3), of fn] r by simp
    note lk = dir_lookup_hit [OF 3(1) 3(4)]
    show "find_file_loop K s src2 fn cwd ni =
       (\<lparr>f_result = 1, f_filename = w, f_cwd = cwd,
          f_next_inode = Some (length (inode_handles s))\<rparr>,
        s\<lparr>inode_handles := inode_handles s @ [(t, 0)]\<rparr>)"
      by (rule find_file_loop_hit_last [OF gp lk])
  qed
next
  case (4 s src fn cwd ni w ws t cwd' s2 x)
  show ?case
  proof (intro allI impI)
    fix src2
    assume a: "components src2 = components src \<and>
       ends_with_separator src2 = ends_with_separator src"
    then have c2: "components src2 = w # ws" using 4(2) by simp
    have r: "rest_after src2 \<noteq> []"
      using rest_after_Nil [OF c2] rest_after_Nil [OF 4(2)] a 4(5) by simp
    have "components (rest_after src2) = components (rest_after src)"
      using components_first [OF c2] components_first [OF 4(2)] by simp
    moreover have "ends_with_separator (rest_after src2) = ends_with_separator (rest_after src)"
      using rest_after_ends [OF r] rest_after_ends [OF 4(5)] a by simp
    ultimately have ih: "find_file_loop K s2 (rest_after src2) w cwd' (Some (length (inode_handles s))) = x"
      using 4(8) by blast
    have gp: "get_next_part (NAME_MAX K) fn src2 = (1, w, rest_after src2)"
      using c2 4(3) by (rule get_next_part_ok)
    note lk = dir_lookup_hit [OF 4(1) 4(4)]
    show "find_file_loop K s src2 fn cwd ni = x"
      unfolding find_file_loop_hit_more [OF gp r lk 4(6)] by (rule ih)
  qed
qed

lemma start_state_cong:
  "is_absolute p = is_absolute q \<Longrightarrow> start_state K s p = start_state K s q"
  by (simp add: start_state_def start_sector_def)

lemma find_file_repeated_separator:
  "find_file K s (u @ CHR ''/'' # CHR ''/'' # v) = find_file K s (u @ CHR ''/'' # v)"
  unfolding find_file_start start_state_cong [OF is_absolute_repeated, of K s u v]
  using find_file_loop_same_components [OF start_state_live [of K s "u @ CHR ''/'' # v"],
      where src = "u @ CHR ''/'' # v" and K = K and fn = "[]" and ni = None]
    components_repeated [of u v] ends_repeated [of u v]
  by blast

lemma find_file_trailing:
  assumes "ends_with_separator p" "find_file K s p = (r, s')"
  shows "f_result r = - 1"
  using find_file_result_cases [OF assms(2)] assms(1) Resolve_walk_trailing
  by (auto simp: Resolve_def)


section \<open>The namespace operations\<close>

lemma take_fault_frame [simp]:
  "cwd_sector (snd (take_fault s)) = cwd_sector s" "inodes (snd (take_fault s)) = inodes s"
  "free_map (snd (take_fault s)) = free_map s"
  "inode_handles (snd (take_fault s)) = inode_handles s"
  "dir_handles (snd (take_fault s)) = dir_handles s"
  by (simp_all add: take_fault_def split: list.splits)

lemma inode_open_frame [simp]:
  "cwd_sector (snd (inode_open s t)) = cwd_sector s" "inodes (snd (inode_open s t)) = inodes s"
  "free_map (snd (inode_open s t)) = free_map s" "faults (snd (inode_open s t)) = faults s"
  "dir_handles (snd (inode_open s t)) = dir_handles s"
  by (simp_all add: inode_open_def)

lemma inode_close_frame [simp]:
  "cwd_sector (inode_close s i) = cwd_sector s" "inodes (inode_close s i) = inodes s"
  "free_map (inode_close s i) = free_map s" "faults (inode_close s i) = faults s"
  "dir_handles (inode_close s i) = dir_handles s"
  by (simp_all add: inode_close_def split: option.splits)

lemma dir_open_frame [simp]:
  "cwd_sector (snd (dir_open s i)) = cwd_sector s" "inodes (snd (dir_open s i)) = inodes s"
  "free_map (snd (dir_open s i)) = free_map s" "faults (snd (dir_open s i)) = faults s"
  "inode_handles (snd (dir_open s i)) = inode_handles s"
  by (simp_all add: dir_open_def Let_def split: option.splits)

lemma dir_close_frame [simp]:
  "cwd_sector (dir_close s d) = cwd_sector s" "inodes (dir_close s d) = inodes s"
  "free_map (dir_close s d) = free_map s" "faults (dir_close s d) = faults s"
  by (simp_all add: dir_close_def split: option.splits)

lemma dir_lookup_frame [simp]:
  "cwd_sector (snd (dir_lookup s d n)) = cwd_sector s" "inodes (snd (dir_lookup s d n)) = inodes s"
  "free_map (snd (dir_lookup s d n)) = free_map s" "faults (snd (dir_lookup s d n)) = faults s"
  "dir_handles (snd (dir_lookup s d n)) = dir_handles s"
  by (simp_all add: dir_lookup_def split: option.splits)

lemma dir_add_frame [simp]:
  "cwd_sector (snd (dir_add s d n t)) = cwd_sector s" "free_map (snd (dir_add s d n t)) = free_map s"
  "inode_handles (snd (dir_add s d n t)) = inode_handles s"
  "dir_handles (snd (dir_add s d n t)) = dir_handles s"
  by (simp_all add: dir_add_def Let_def split_def split: option.splits bool.splits)

lemma dir_remove_frame [simp]:
  "cwd_sector (snd (dir_remove s d n)) = cwd_sector s" "free_map (snd (dir_remove s d n)) = free_map s"
  "faults (snd (dir_remove s d n)) = faults s"
  "inode_handles (snd (dir_remove s d n)) = inode_handles s"
  "dir_handles (snd (dir_remove s d n)) = dir_handles s"
  by (simp_all add: dir_remove_def Let_def split: option.splits)

lemma inode_create_frame [simp]:
  "cwd_sector (snd (inode_create s t l b)) = cwd_sector s"
  "free_map (snd (inode_create s t l b)) = free_map s"
  "inode_handles (snd (inode_create s t l b)) = inode_handles s"
  "dir_handles (snd (inode_create s t l b)) = dir_handles s"
  by (simp_all add: inode_create_def split_def split: bool.splits)

lemma free_map_allocate_frame [simp]:
  "cwd_sector (snd (free_map_allocate s)) = cwd_sector s"
  "inodes (snd (free_map_allocate s)) = inodes s" "faults (snd (free_map_allocate s)) = faults s"
  "inode_handles (snd (free_map_allocate s)) = inode_handles s"
  "dir_handles (snd (free_map_allocate s)) = dir_handles s"
  by (simp_all add: free_map_allocate_def split: option.splits)

lemma free_map_release_frame [simp]:
  "cwd_sector (free_map_release s t) = cwd_sector s" "inodes (free_map_release s t) = inodes s"
  "faults (free_map_release s t) = faults s"
  "inode_handles (free_map_release s t) = inode_handles s"
  "dir_handles (free_map_release s t) = dir_handles s"
  by (simp_all add: free_map_release_def)

lemma file_open_frame [simp]: "snd (file_open s i) = s"
  by (simp add: file_open_def split: option.splits)

lemma add_dot_entries_frame [simp]:
  "cwd_sector (snd (add_dot_entries s d t)) = cwd_sector s"
  "free_map (snd (add_dot_entries s d t)) = free_map s"
  by (simp_all add: add_dot_entries_def split_def)

lemma find_file_snd_frame [simp]:
  "cwd_sector (snd (find_file K s p)) = cwd_sector s" "inodes (snd (find_file K s p)) = inodes s"
  "free_map (snd (find_file K s p)) = free_map s" "faults (snd (find_file K s p)) = faults s"
  using find_file_frame [OF surjective_pairing, of K s p] by simp_all

lemma filesys_create_cwd: "cwd_sector (snd (filesys_create K s p sz isd)) = cwd_sector s"
  by (simp add: filesys_create_def split_def Let_def split: option.splits bool.splits)

lemma filesys_open_cwd: "cwd_sector (snd (filesys_open K s p)) = cwd_sector s"
  by (simp add: filesys_open_def split_def Let_def split: option.splits)

lemma filesys_remove_cwd: "cwd_sector (snd (filesys_remove K s p)) = cwd_sector s"
  by (simp add: filesys_remove_def split_def Let_def)

lemma filesys_change_dir_cwd:
  "\<not> fst (filesys_change_dir K s p) \<Longrightarrow> cwd_sector (snd (filesys_change_dir K s p)) = cwd_sector s"
  by (auto simp: filesys_change_dir_def split_def Let_def split: if_splits)


lemma inode_close_sector [simp]: "inode_sector (inode_close s x) i = inode_sector s i"
  by (auto simp: inode_close_def inode_sector_def nth_list_update split: option.splits)

lemma dir_close_sector [simp]: "inode_sector (dir_close s d) i = inode_sector s i"
  by (auto simp: dir_close_def inode_sector_def inode_close_def nth_list_update split: option.splits)

lemma inode_is_dir_after_close:
  "inode_is_dir (dir_close s d) x = inode_is_dir s x"
  by (simp add: inode_is_dir_def split: option.splits)

lemma inode_get_inumber_after_close:
  "inode_get_inumber (dir_close s d) x = inode_get_inumber s x"
  by (simp add: inode_get_inumber_def split: option.splits)

lemma filesys_change_dir_eq:
  assumes ff: "find_file K s p = (r, s1)"
  shows "filesys_change_dir K s p =
     (f_result r = 1 \<and> inode_is_dir s1 (f_next_inode r),
      inode_close
        ((dir_close s1 (f_cwd r))
           \<lparr>cwd_sector := (if f_result r = 1 \<and> inode_is_dir s1 (f_next_inode r)
                             then inode_get_inumber s1 (f_next_inode r) else cwd_sector s)\<rparr>)
        (f_next_inode r))"
proof -
  have "cwd_sector s1 = cwd_sector s" using find_file_frame(3) [OF ff] .
  then have "(dir_close s1 (f_cwd r))\<lparr>cwd_sector := cwd_sector s\<rparr> = dir_close s1 (f_cwd r)"
    by simp
  then show ?thesis
    by (simp add: filesys_change_dir_def ff Let_def inode_is_dir_after_close
        inode_get_inumber_after_close)
qed


lemma handles_kept_refl [simp]: "handles_kept s s"
  by (simp add: handles_kept_def)

lemma handles_kept_eq:
  "inode_handles s2 = inode_handles s1 \<Longrightarrow> dir_handles s2 = dir_handles s1 \<Longrightarrow>
   handles_kept s s1 \<Longrightarrow> handles_kept s s2"
  by (simp add: handles_kept_def)

lemma map_fst_bump: "map fst (xs[i := (fst (xs ! i), c)]) = map fst xs"
proof (cases "i < length xs")
  case True
  then show ?thesis by (simp add: map_update list_update_same_conv)
next
  case False
  then have "xs[i := (fst (xs ! i), c)] = xs" by (intro list_update_beyond) simp
  then show ?thesis by simp
qed

lemma handles_kept_inode_open [simp]:
  "handles_kept s s1 \<Longrightarrow> handles_kept s (snd (inode_open s1 t))"
  by (auto simp: handles_kept_def inode_open_def)

lemma handles_kept_inode_close [simp]:
  "handles_kept s s1 \<Longrightarrow> handles_kept s (inode_close s1 x)"
  by (auto simp: handles_kept_def inode_close_def map_fst_bump split: option.splits)

lemma handles_kept_dir_open [simp]:
  "handles_kept s s1 \<Longrightarrow> handles_kept s (snd (dir_open s1 x))"
  by (auto simp: handles_kept_def dir_open_def Let_def split: option.splits)

lemma handles_kept_dir_close [simp]:
  "handles_kept s s1 \<Longrightarrow> handles_kept s (dir_close s1 x)"
  by (auto simp: handles_kept_def dir_close_def inode_close_def map_fst_bump split: option.splits)

lemma handles_kept_dir_add [simp]:
  "handles_kept s s1 \<Longrightarrow> handles_kept s (snd (dir_add s1 d n t))"
  by (rule handles_kept_eq) simp_all

lemma handles_kept_inode_create [simp]:
  "handles_kept s s1 \<Longrightarrow> handles_kept s (snd (inode_create s1 t l b))"
  by (rule handles_kept_eq) simp_all

lemma handles_kept_allocate [simp]:
  "handles_kept s s1 \<Longrightarrow> handles_kept s (snd (free_map_allocate s1))"
  by (rule handles_kept_eq) simp_all

lemma handles_kept_release [simp]:
  "handles_kept s s1 \<Longrightarrow> handles_kept s (free_map_release s1 t)"
  by (rule handles_kept_eq) simp_all























section \<open>The claims\<close>


text \<open>
  Claim C1 asks that a \<^verbatim>\<open>filesys_create\<close> that fails leave no entry for the new name in
  the parent directory. The code does otherwise when adding \<^verbatim>\<open>"."\<close> to a new directory
  fails: \<^verbatim>\<open>"d"\<close> resolves to not-found-as-last in the root, the sector 4 is allocated,
  the inode is created, the insertion of \<^verbatim>\<open>"."\<close> fails, and the insertion of \<^verbatim>\<open>"d"\<close>
  into the root is carried out all the same. The call returns false and releases sector 4,
  and the root now has an entry \<^verbatim>\<open>"d"\<close> for that sector.
\<close>

theorem filesys_create_links_after_failure:
  "f_result (fst (find_file K0 fs0_dot_fails ''d'')) = 0
   \<and> i_entries (inodes fs0_dot_fails 1) ''d'' = None
   \<and> fst (filesys_create K0 fs0_dot_fails ''d'' 0 True) = False
   \<and> i_entries (inodes (snd (filesys_create K0 fs0_dot_fails ''d'' 0 True)) 1) ''d'' = Some 4
   \<and> free_map (snd (filesys_create K0 fs0_dot_fails ''d'' 0 True)) ! 4 = False"
  by code_simp


text \<open>
  Claim C2 asks that every handle opened during a call be released exactly once. The code
  does otherwise: \<^verbatim>\<open>filesys_remove\<close> never closes the inode handle that the resolver
  returns (handle 1, on sector 3, is still open after the file \<^verbatim>\<open>f\<close> has been removed);
  \<^verbatim>\<open>filesys_create\<close> returns without closing the parent directory when no sector can
  be allocated (directory handle 0 is still open); and \<^verbatim>\<open>filesys_open\<close> of \<^verbatim>\<open>"a/"\<close>
  closes the inode handle of \<^verbatim>\<open>a\<close> twice, once through the directory that owns it and
  once directly.
\<close>

theorem filesys_remove_leaks_inode_handle:
  "fst (filesys_remove K0 fs0 ''f'') = True
   \<and> inode_handles (snd (filesys_remove K0 fs0 ''f'')) = [(1, 1), (3, 0)]
   \<and> fst (filesys_create K0 fs0_full ''d'' 0 False) = False
   \<and> dir_handles (snd (filesys_create K0 fs0_full ''d'' 0 False)) = [(0, 0)]
   \<and> fst (filesys_open K0 fs0 ''a/'') = Null
   \<and> inode_handles (snd (filesys_open K0 fs0 ''a/'')) = [(1, 1), (2, 2)]"
  by code_simp


text \<open>
  Claim C3 asks that \<^verbatim>\<open>filesys_remove\<close> remove the entry of the last component
  whenever the path resolves to found-as-last and the inode is not the working directory.
  The code hands the whole path, not the last component, to \<^verbatim>\<open>dir_remove\<close>: \<^verbatim>\<open>"/f"\<close>
  resolves to the file in sector 3, the working directory is sector 1, and the call returns
  false and leaves the entry \<^verbatim>\<open>f\<close> in the root, since the root has no entry named
  \<^verbatim>\<open>"/f"\<close>. The path \<^verbatim>\<open>"f"\<close>, which is its own last component, is removed.
\<close>

theorem filesys_remove_passes_whole_path:
  "f_result (fst (find_file K0 fs0 ''/f'')) = 1
   \<and> inode_get_inumber (snd (find_file K0 fs0 ''/f'')) (f_next_inode (fst (find_file K0 fs0 ''/f''))) = 3
   \<and> cwd_sector fs0 = 1
   \<and> fst (filesys_remove K0 fs0 ''/f'') = False
   \<and> i_entries (inodes (snd (filesys_remove K0 fs0 ''/f'')) 1) ''f'' = Some 3
   \<and> fst (filesys_remove K0 fs0 ''f'') = True
   \<and> i_entries (inodes (snd (filesys_remove K0 fs0 ''f'')) 1) ''f'' = None"
  by code_simp


text \<open>
  Claim C4 says that separators appended to a path leave the outcome of the resolution as it
  was. They do not: in the example file system \<^verbatim>\<open>"a"\<close> resolves to found-as-last and
  \<^verbatim>\<open>"a/"\<close> to invalid, \<^verbatim>\<open>"x"\<close> resolves to not-found-as-last and \<^verbatim>\<open>"x/"\<close> to invalid,
  and \<^verbatim>\<open>filesys_open\<close> opens \<^verbatim>\<open>"a"\<close> and not \<^verbatim>\<open>"a/"\<close>.
\<close>

theorem trailing_separator_changes_outcome:
  "f_result (fst (find_file K0 fs0 ''a'')) = 1
   \<and> f_result (fst (find_file K0 fs0 (''a'' @ ''/''))) = - 1
   \<and> f_result (fst (find_file K0 fs0 ''x'')) = 0
   \<and> f_result (fst (find_file K0 fs0 (''x'' @ ''/''))) = - 1
   \<and> fst (filesys_open K0 fs0 ''a'') \<noteq> Null
   \<and> fst (filesys_open K0 fs0 (''a'' @ ''/'')) = Null"
  by code_simp

text \<open>
  Claim C4 as amended. A separator repeated anywhere in a path changes nothing:
  \<^verbatim>\<open>find_file\<close> returns the same result and leaves the same state, and so do
  \<^verbatim>\<open>filesys_create\<close>, \<^verbatim>\<open>filesys_open\<close> and \<^verbatim>\<open>filesys_change_dir\<close>. A trailing separator
  is not ignored: a component followed by a separator is not final, so every path that ends
  with a separator resolves to invalid, \<^verbatim>\<open>filesys_create\<close>, \<^verbatim>\<open>filesys_remove\<close> and
  \<^verbatim>\<open>filesys_change_dir\<close> return false on it and \<^verbatim>\<open>filesys_open\<close> returns \<^verbatim>\<open>NULL\<close>.
\<close>

theorem separators_in_resolution:
  "find_file K s (u @ ''//'' @ v) = find_file K s (u @ ''/'' @ v)
   \<and> filesys_create K s (u @ ''//'' @ v) sz isd = filesys_create K s (u @ ''/'' @ v) sz isd
   \<and> filesys_open K s (u @ ''//'' @ v) = filesys_open K s (u @ ''/'' @ v)
   \<and> filesys_change_dir K s (u @ ''//'' @ v) = filesys_change_dir K s (u @ ''/'' @ v)
   \<and> (ends_with_separator p \<longrightarrow>
        f_result (fst (find_file K s p)) = - 1
        \<and> \<not> fst (filesys_create K s p sz isd)
        \<and> fst (filesys_open K s p) = Null
        \<and> \<not> fst (filesys_remove K s p)
        \<and> \<not> fst (filesys_change_dir K s p))"
proof -
  have ff: "find_file K s (u @ ''//'' @ v) = find_file K s (u @ ''/'' @ v)"
    using find_file_repeated_separator [of K s u v] by simp
  have cr: "filesys_create K s (u @ ''//'' @ v) sz isd = filesys_create K s (u @ ''/'' @ v) sz isd"
    unfolding filesys_create_def ff ..
  have op: "filesys_open K s (u @ ''//'' @ v) = filesys_open K s (u @ ''/'' @ v)"
    unfolding filesys_open_def ff ..
  have cd: "filesys_change_dir K s (u @ ''//'' @ v) = filesys_change_dir K s (u @ ''/'' @ v)"
    unfolding filesys_change_dir_def ff ..
  have tr: "ends_with_separator p \<longrightarrow>
        f_result (fst (find_file K s p)) = - 1
        \<and> \<not> fst (filesys_create K s p sz isd)
        \<and> fst (filesys_open K s p) = Null
        \<and> \<not> fst (filesys_remove K s p)
        \<and> \<not> fst (filesys_change_dir K s p)"
  proof
    assume e: "ends_with_separator p"
    have r: "f_result (fst (find_file K s p)) = - 1"
      using find_file_trailing [OF e surjective_pairing] .
    have "\<not> fst (filesys_create K s p sz isd)"
      using r by (simp add: filesys_create_def split_def Let_def)
    moreover have "fst (filesys_open K s p) = Null"
      using r by (simp add: filesys_open_def split_def Let_def)
    moreover have "\<not> fst (filesys_remove K s p)"
      using r by (simp add: filesys_remove_def split_def Let_def)
    moreover have "\<not> fst (filesys_change_dir K s p)"
      using r by (simp add: filesys_change_dir_def split_def Let_def)
    ultimately show "f_result (fst (find_file K s p)) = - 1
        \<and> \<not> fst (filesys_create K s p sz isd)
        \<and> fst (filesys_open K s p) = Null
        \<and> \<not> fst (filesys_remove K s p)
        \<and> \<not> fst (filesys_change_dir K s p)"
      using r by blast
  qed
  show ?thesis using ff cr op cd tr by blast
qed

theorem separators_in_resolution_witness:
  "ends_with_separator ''a/''
   \<and> f_result (fst (find_file K0 fs0 ''a/'')) = - 1
   \<and> fst (filesys_open K0 fs0 ''a/'') = Null
   \<and> \<not> fst (filesys_change_dir K0 fs0 ''a/'')
   \<and> find_file K0 fs0 ''/a//..'' = find_file K0 fs0 ''/a/..''"
proof -
  have e: "ends_with_separator ''a/''" by (simp add: ends_with_separator_def)
  show ?thesis
    using separators_in_resolution [of K0 fs0 "''/a''" "''..''" 0 False "''a/''"] e by simp
qed

text \<open>
  Claim C5. \<^verbatim>\<open>find_file\<close> classifies every path into exactly one of the three
  outcomes, and the outcome is the one the walk of the specification gives
  (\<open>Resolve\<close>): a component that is too long, or a path without components, gives -1
  (invalid); a miss on a component after which no characters remain gives 0 (not found as
  last) with the parent directory handle and no inode; a miss on a component after which
  characters remain gives -1; a hit on a component after which no characters remain gives 1
  (found as last) with the parent directory handle and the inode handle of the entry. The
  component counts as final when no characters remain after it.
\<close>

theorem find_file_classifies:
  assumes "find_file K s p = (r, s')"
  shows "outcome_of (r, s') = Resolve K s p
    \<and> (f_result r = - 1 \<or> f_result r = 0 \<or> f_result r = 1)
    \<and> (components p = [] \<longrightarrow> f_result r = - 1)
    \<and> ((\<exists>w\<in>set (components p). NAME_MAX K < length w) \<longrightarrow> f_result r = - 1)
    \<and> (f_result r = 0 \<longrightarrow>
          f_next_inode r = None \<and> dir_live s' (f_cwd r)
          \<and> i_entries (inodes s (dir_sector s' (f_cwd r))) (f_filename r) = None
          \<and> components p \<noteq> [] \<and> f_filename r = last (components p)
          \<and> \<not> ends_with_separator p)
    \<and> (f_result r = 1 \<longrightarrow>
          f_next_inode r \<noteq> None \<and> dir_live s' (f_cwd r)
          \<and> i_entries (inodes s (dir_sector s' (f_cwd r))) (f_filename r) =
              Some (inode_get_inumber s' (f_next_inode r))
          \<and> components p \<noteq> [] \<and> f_filename r = last (components p)
          \<and> \<not> ends_with_separator p)"
proof -
  have out: "outcome_of (r, s') = Resolve K s p"
    using find_file_outcome [of K s p] assms by simp
  have h: "exit_handles (start_state K s p) (r, s')"
    using find_file_handles [of K s p] assms by simp
  have res: "f_result r = - 1 \<or> f_result r = 0 \<or> f_result r = 1"
    and live: "dir_live s' (f_cwd r)"
    and none: "f_result r = 0 \<longrightarrow> f_next_inode r = None"
    and some: "f_result r = 1 \<longrightarrow> f_next_inode r \<noteq> None"
    using h by (auto simp: exit_handles_def)
  have inv: "Resolve K s p = Invalid \<longrightarrow> f_result r = - 1"
    using out res by (auto simp: outcome_of_def)
  have empty: "components p = [] \<longrightarrow> f_result r = - 1"
    using inv by (simp add: Resolve_def)
  have long: "(\<exists>w\<in>set (components p). NAME_MAX K < length w) \<longrightarrow> f_result r = - 1"
    using inv Resolve_walk_too_long [of "components p" "NAME_MAX K"] by (simp add: Resolve_def)
  have nf: "f_result r = 0 \<longrightarrow>
          i_entries (inodes s (dir_sector s' (f_cwd r))) (f_filename r) = None
          \<and> components p \<noteq> [] \<and> f_filename r = last (components p)
          \<and> \<not> ends_with_separator p"
  proof
    assume "f_result r = 0"
    then have "Resolve K s p = NotFoundAsLast (dir_sector s' (f_cwd r)) (f_filename r)"
      using out by (simp add: outcome_of_def)
    then show "i_entries (inodes s (dir_sector s' (f_cwd r))) (f_filename r) = None
          \<and> components p \<noteq> [] \<and> f_filename r = last (components p)
          \<and> \<not> ends_with_separator p"
      unfolding Resolve_def by (auto dest: Resolve_walk_not_found)
  qed
  have fd: "f_result r = 1 \<longrightarrow>
          i_entries (inodes s (dir_sector s' (f_cwd r))) (f_filename r) =
              Some (inode_get_inumber s' (f_next_inode r))
          \<and> components p \<noteq> [] \<and> f_filename r = last (components p)
          \<and> \<not> ends_with_separator p"
  proof
    assume "f_result r = 1"
    then have "Resolve K s p = FoundAsLast (dir_sector s' (f_cwd r)) (f_filename r)
        (inode_get_inumber s' (f_next_inode r))"
      using out by (simp add: outcome_of_def)
    then show "i_entries (inodes s (dir_sector s' (f_cwd r))) (f_filename r) =
              Some (inode_get_inumber s' (f_next_inode r))
          \<and> components p \<noteq> [] \<and> f_filename r = last (components p)
          \<and> \<not> ends_with_separator p"
      unfolding Resolve_def by (auto dest: Resolve_walk_found)
  qed
  show ?thesis using out res empty long nf fd live none some by blast
qed


theorem find_file_classifies_witness:
  "f_result (fst (find_file K0 fs0 ''/a/b/c'')) = - 1
   \<and> Resolve K0 fs0 ''/a/b/c'' = Invalid
   \<and> f_result (fst (find_file K0 fs0 ''/a/b'')) = 0
   \<and> f_next_inode (fst (find_file K0 fs0 ''/a/b'')) = None
   \<and> f_result (fst (find_file K0 fs0 ''/a'')) = 1
   \<and> f_next_inode (fst (find_file K0 fs0 ''/a'')) \<noteq> None
   \<and> f_result (fst (find_file K0 fs0 ''//'')) = - 1
   \<and> f_result (fst (find_file K0 fs0 ''a/abcdefghijklmno/b'')) = - 1"
proof -
  have r1: "Resolve K0 fs0 ''/a/b/c'' = Invalid"
    by (simp add: Resolve_def components_def K0_def fs0_def start_sector_def is_absolute_def
        ends_with_separator_def)
  have r2: "Resolve K0 fs0 ''/a/b'' = NotFoundAsLast 2 ''b''"
    by (simp add: Resolve_def components_def K0_def fs0_def start_sector_def is_absolute_def
        ends_with_separator_def)
  have r3: "Resolve K0 fs0 ''/a'' = FoundAsLast 1 ''a'' 2"
    by (simp add: Resolve_def components_def K0_def fs0_def start_sector_def is_absolute_def
        ends_with_separator_def)
  note t1 = find_file_classifies [OF surjective_pairing, of K0 fs0 "''/a/b/c''"]
  note t2 = find_file_classifies [OF surjective_pairing, of K0 fs0 "''/a/b''"]
  note t3 = find_file_classifies [OF surjective_pairing, of K0 fs0 "''/a''"]
  have "f_result (fst (find_file K0 fs0 ''/a/b/c'')) = - 1"
    using t1 [THEN conjunct1, unfolded r1 outcome_of_Invalid] t1 [THEN conjunct2, THEN conjunct1]
    by blast
  moreover have f2: "f_result (fst (find_file K0 fs0 ''/a/b'')) = 0"
    using t2 [THEN conjunct1, unfolded r2 outcome_of_not_found] by blast
  moreover have "f_next_inode (fst (find_file K0 fs0 ''/a/b'')) = None"
    using t2 [THEN conjunct2, THEN conjunct2, THEN conjunct2, THEN conjunct2, THEN conjunct1] f2
    by blast
  moreover have f3: "f_result (fst (find_file K0 fs0 ''/a'')) = 1"
    using t3 [THEN conjunct1, unfolded r3 outcome_of_found] by blast
  moreover have "f_next_inode (fst (find_file K0 fs0 ''/a'')) \<noteq> None"
    using t3 [THEN conjunct2, THEN conjunct2, THEN conjunct2, THEN conjunct2, THEN conjunct2] f3
    by blast
  moreover have "f_result (fst (find_file K0 fs0 ''//'')) = - 1"
    using find_file_classifies [OF surjective_pairing, of K0 fs0 "''//''",
        THEN conjunct2, THEN conjunct2, THEN conjunct1]
    by (simp add: components_def)
  moreover have "f_result (fst (find_file K0 fs0 ''a/abcdefghijklmno/b'')) = - 1"
    using find_file_classifies [OF surjective_pairing, of K0 fs0 "''a/abcdefghijklmno/b''",
        THEN conjunct2, THEN conjunct2, THEN conjunct2, THEN conjunct1]
    by (simp add: components_def K0_def)
  ultimately show ?thesis using r1 by blast
qed





text \<open>
  Claim C7. Repeated calls of the path parser on a path produce the non-empty,
  separator-delimited components of the path, unchanged and in order, up to the first
  component (if any) that is longer than the maximum name length; the last call returns 0
  (end of string) when no component is too long and -1 otherwise, and the cursor it leaves
  still has every component that was not produced ahead of it. So a path whose components all
  fit yields exactly its components and then the end-of-string result. A path made of
  separators only yields 0 at once and produces nothing, leaving buffer and cursor alone.
  When the next component is too long the call returns -1 and leaves the cursor where it
  was.
\<close>

theorem get_next_part_yields_components:
  "fst (parse_parts nmax part p) = takeWhile (\<lambda>w. length w \<le> nmax) (components p)
   \<and> fst (snd (parse_parts nmax part p)) =
       (if \<forall>w\<in>set (components p). length w \<le> nmax then 0 else - 1)
   \<and> components (snd (snd (parse_parts nmax part p))) =
       dropWhile (\<lambda>w. length w \<le> nmax) (components p)
   \<and> ((\<forall>w\<in>set (components p). length w \<le> nmax) \<longrightarrow>
        fst (parse_parts nmax part p) = components p \<and> fst (snd (parse_parts nmax part p)) = 0)
   \<and> (set p \<subseteq> {CHR ''/''} \<longrightarrow> get_next_part nmax part p = (0, part, p))
   \<and> (\<forall>w ws. components p = w # ws \<and> nmax < length w \<longrightarrow>
        get_next_part nmax part p = (- 1, take nmax w, p))"
proof -
  have eq: "parse_parts nmax part p =
     (takeWhile (\<lambda>w. length w \<le> nmax) (components p),
      (if \<forall>w\<in>set (components p). length w \<le> nmax then 0 else - 1),
      snd (snd (parse_parts nmax part p)))"
    and rest: "components (snd (snd (parse_parts nmax part p))) =
       dropWhile (\<lambda>w. length w \<le> nmax) (components p)"
    using parse_parts_eq [of nmax part p] by blast+
  have a: "fst (parse_parts nmax part p) = takeWhile (\<lambda>w. length w \<le> nmax) (components p)"
    by (subst eq) simp
  have b: "fst (snd (parse_parts nmax part p)) =
       (if \<forall>w\<in>set (components p). length w \<le> nmax then 0 else - 1)"
    by (subst eq) simp
  have c: "(\<forall>w\<in>set (components p). length w \<le> nmax) \<longrightarrow>
        fst (parse_parts nmax part p) = components p \<and> fst (snd (parse_parts nmax part p)) = 0"
    using a b by (simp add: takeWhile_eq_all_conv)
  have d: "set p \<subseteq> {CHR ''/''} \<longrightarrow> get_next_part nmax part p = (0, part, p)"
    using only_separators [of p] get_next_part_end [of p nmax part] by blast
  have e: "\<forall>w ws. components p = w # ws \<and> nmax < length w \<longrightarrow>
        get_next_part nmax part p = (- 1, take nmax w, p)"
    using get_next_part_too_long [of p _ _ nmax part] by (simp add: not_le)
  show ?thesis using a b rest c d e by blast
qed

theorem get_next_part_yields_components_witness:
  "fst (parse_parts 3 [] ''//ab/Cd//e/'') = [''ab'', ''Cd'', ''e'']
   \<and> fst (snd (parse_parts 3 [] ''//ab/Cd//e/'')) = 0
   \<and> get_next_part 3 ''x'' ''///'' = (0, ''x'', ''///'')
   \<and> get_next_part 3 ''x'' ''/abcd/e'' = (- 1, ''abc'', ''/abcd/e'')"
proof -
  have c1: "components ''//ab/Cd//e/'' = [''ab'', ''Cd'', ''e'']"
    by (simp add: components_def)
  have c2: "components ''/abcd/e'' = [''abcd'', ''e'']"
    by (simp add: components_def)
  have "fst (parse_parts 3 [] ''//ab/Cd//e/'') = [''ab'', ''Cd'', ''e'']
      \<and> fst (snd (parse_parts 3 [] ''//ab/Cd//e/'')) = 0"
    using get_next_part_yields_components [of 3 "[]" "''//ab/Cd//e/''"] c1 by simp
  moreover have "get_next_part 3 ''x'' ''///'' = (0, ''x'', ''///'')"
    using get_next_part_yields_components [of 3 "''x''" "''///''"] by simp
  moreover have "get_next_part 3 ''x'' ''/abcd/e'' = (- 1, ''abc'', ''/abcd/e'')"
    using get_next_part_yields_components [of 3 "''x''" "''/abcd/e''"] c2 by simp
  ultimately show ?thesis by blast
qed

text \<open>
  Claim C8. \<^verbatim>\<open>filesys_change_dir\<close> returns true exactly when the path resolves to
  found-as-last and the inode found is a directory. When it returns true, the thread's
  \<^verbatim>\<open>cwd_sector\<close> is the number of that inode, so that every later resolution of a
  relative path walks from that directory. Whenever the path resolves to found-as-last,
  directory or not, the inode handle that \<^verbatim>\<open>find_file\<close> returned open has been released
  exactly once at the return.
\<close>

theorem filesys_change_dir_correct:
  assumes ff: "find_file K s p = (r, s1)" and cd: "filesys_change_dir K s p = (ok, s')"
  shows "ok = (\<exists>d n t. Resolve K s p = FoundAsLast d n t \<and> i_is_dir (inodes s t))
    \<and> (ok \<longrightarrow> (\<exists>d n. Resolve K s p = FoundAsLast d n (cwd_sector s')))
    \<and> (ok \<longrightarrow> (\<forall>q. \<not> is_absolute q \<longrightarrow>
          outcome_of (find_file K s' q) =
            Resolve_walk (NAME_MAX K) (inodes s) (ends_with_separator q) (cwd_sector s')
              (components q)))
    \<and> (f_result r = 1 \<longrightarrow>
          (\<exists>i. f_next_inode r = Some i \<and> i < length (inode_handles s1)
             \<and> snd (inode_handles s1 ! i) = 0 \<and> snd (inode_handles s' ! i) = 1))
    \<and> inodes s' = inodes s"
proof -
  note eq = filesys_change_dir_eq [OF ff, unfolded cd]
  have ok: "ok = (f_result r = 1 \<and> inode_is_dir s1 (f_next_inode r))"
    and s': "s' = inode_close
        ((dir_close s1 (f_cwd r))
           \<lparr>cwd_sector := (if f_result r = 1 \<and> inode_is_dir s1 (f_next_inode r)
                             then inode_get_inumber s1 (f_next_inode r) else cwd_sector s)\<rparr>)
        (f_next_inode r)"
    using eq by simp_all
  have ino: "inodes s' = inodes s" unfolding s' using find_file_frame(1) [OF ff] by simp
  have h: "exit_handles (start_state K s p) (r, s1)"
    using find_file_handles [of K s p] ff by simp
  have found: "f_result r = 1 \<Longrightarrow> \<exists>i d. f_next_inode r = Some i \<and> f_cwd r = Some d
      \<and> Suc i = length (inode_handles s1) \<and> snd (inode_handles s1 ! i) = 0
      \<and> fst (dir_handles s1 ! d) < i \<and> dir_live s1 (Some d)"
    using h by (auto simp: exit_handles_def)
  note rc = find_file_result_cases [OF ff]
  have dirflag: "f_result r = 1 \<Longrightarrow>
      inode_is_dir s1 (f_next_inode r) = i_is_dir (inodes s (inode_get_inumber s1 (f_next_inode r)))"
    using found find_file_frame(1) [OF ff]
    by (auto simp: inode_is_dir_def inode_get_inumber_def)
  have a: "ok = (\<exists>d n t. Resolve K s p = FoundAsLast d n t \<and> i_is_dir (inodes s t))"
    unfolding ok using rc dirflag by auto
  have cw: "ok \<Longrightarrow> cwd_sector s' = inode_get_inumber s1 (f_next_inode r)"
    unfolding s' ok by simp
  have b: "ok \<longrightarrow> (\<exists>d n. Resolve K s p = FoundAsLast d n (cwd_sector s'))"
    using cw rc ok by auto
  have c: "ok \<longrightarrow> (\<forall>q. \<not> is_absolute q \<longrightarrow>
          outcome_of (find_file K s' q) =
            Resolve_walk (NAME_MAX K) (inodes s) (ends_with_separator q) (cwd_sector s')
              (components q))"
    using find_file_outcome [of K s'] ino by (simp add: Resolve_def start_sector_def)
  have d: "f_result r = 1 \<longrightarrow>
          (\<exists>i. f_next_inode r = Some i \<and> i < length (inode_handles s1)
             \<and> snd (inode_handles s1 ! i) = 0 \<and> snd (inode_handles s' ! i) = 1)"
  proof
    assume r1: "f_result r = 1"
    obtain i d where f: "f_next_inode r = Some i" "f_cwd r = Some d"
      "Suc i = length (inode_handles s1)" "snd (inode_handles s1 ! i) = 0"
      "fst (dir_handles s1 ! d) < i" "dir_live s1 (Some d)"
      using found [OF r1] by blast
    have "snd (inode_handles s' ! i) = 1"
      unfolding s' f(1,2)
      using f(3-6) by (simp add: dir_live_def dir_close_def inode_close_def)
    then show "\<exists>i. f_next_inode r = Some i \<and> i < length (inode_handles s1)
             \<and> snd (inode_handles s1 ! i) = 0 \<and> snd (inode_handles s' ! i) = 1"
      using f by auto
  qed
  show ?thesis using a b c d ino by blast
qed


theorem filesys_change_dir_correct_witness:
  "fst (filesys_change_dir K0 fs0 ''a'')
   \<and> cwd_sector (snd (filesys_change_dir K0 fs0 ''a'')) = 2
   \<and> \<not> fst (filesys_change_dir K0 fs0 ''f'')
   \<and> outcome_of (find_file K0 (snd (filesys_change_dir K0 fs0 ''a'')) ''..'') =
       FoundAsLast 2 ''..'' 1"
proof -
  have r1: "Resolve K0 fs0 ''a'' = FoundAsLast 1 ''a'' 2"
    by (simp add: Resolve_def components_def K0_def fs0_def start_sector_def is_absolute_def
        ends_with_separator_def)
  have r2: "Resolve K0 fs0 ''f'' = FoundAsLast 1 ''f'' 3"
    by (simp add: Resolve_def components_def K0_def fs0_def start_sector_def is_absolute_def
        ends_with_separator_def)
  have d: "i_is_dir (inodes fs0 2)" "\<not> i_is_dir (inodes fs0 3)"
    by (simp_all add: fs0_def no_inode_def)
  note t1 = filesys_change_dir_correct [OF surjective_pairing surjective_pairing, of K0 fs0 "''a''"]
  note t2 = filesys_change_dir_correct [OF surjective_pairing surjective_pairing, of K0 fs0 "''f''"]
  have ok: "fst (filesys_change_dir K0 fs0 ''a'')"
    using t1 [THEN conjunct1] r1 d by simp
  have cw: "cwd_sector (snd (filesys_change_dir K0 fs0 ''a'')) = 2"
    using t1 [THEN conjunct2, THEN conjunct1] ok r1 by simp
  have no: "\<not> fst (filesys_change_dir K0 fs0 ''f'')"
    using t2 [THEN conjunct1] r2 d by simp
  have "outcome_of (find_file K0 (snd (filesys_change_dir K0 fs0 ''a'')) ''..'') =
      Resolve_walk (NAME_MAX K0) (inodes fs0) (ends_with_separator ''..'') 2 (components ''..'')"
    using t1 [THEN conjunct2, THEN conjunct2, THEN conjunct1] ok cw
    by (simp add: is_absolute_def)
  also have "\<dots> = FoundAsLast 2 ''..'' 1"
    by (simp add: components_def K0_def fs0_def ends_with_separator_def)
  finally show ?thesis using ok cw no by blast
qed

text \<open>
  Claim C9. \<^verbatim>\<open>filesys_create\<close>, \<^verbatim>\<open>filesys_open\<close> and \<^verbatim>\<open>filesys_remove\<close> leave the
  calling thread's \<^verbatim>\<open>cwd_sector\<close> as it was, and so does a \<^verbatim>\<open>filesys_change_dir\<close>
  that returns false: only a successful change of directory writes it.
\<close>

theorem cwd_sector_written_only_by_change_dir:
  "cwd_sector (snd (filesys_create K s p sz isd)) = cwd_sector s
   \<and> cwd_sector (snd (filesys_open K s p)) = cwd_sector s
   \<and> cwd_sector (snd (filesys_remove K s p)) = cwd_sector s
   \<and> (\<not> fst (filesys_change_dir K s p) \<longrightarrow>
        cwd_sector (snd (filesys_change_dir K s p)) = cwd_sector s)"
  using filesys_create_cwd [of K s p sz isd] filesys_open_cwd [of K s p]
    filesys_remove_cwd [of K s p] filesys_change_dir_cwd [of K s p]
  by blast


theorem cwd_sector_written_only_by_change_dir_witness:
  "\<not> fst (filesys_change_dir K0 fs0 ''f'')
   \<and> cwd_sector (snd (filesys_change_dir K0 fs0 ''f'')) = 1
   \<and> cwd_sector (snd (filesys_create K0 fs0 ''a/x'' 0 True)) = 1
   \<and> cwd_sector (snd (filesys_open K0 fs0 ''a'')) = 1
   \<and> cwd_sector (snd (filesys_remove K0 fs0 ''f'')) = 1"
proof -
  have f: "\<not> fst (filesys_change_dir K0 fs0 ''f'')"
    by code_simp
  have c: "cwd_sector fs0 = 1" by (simp add: fs0_def)
  show ?thesis
    using cwd_sector_written_only_by_change_dir [of K0 fs0 "''f''" 0 True]
      cwd_sector_written_only_by_change_dir [of K0 fs0 "''a/x''" 0 True]
      cwd_sector_written_only_by_change_dir [of K0 fs0 "''a''" 0 True] f c
    by simp
qed

text \<open>
  Claim C10. Whatever the path and the working directory, \<^verbatim>\<open>find_file\<close> hands a
  directory handle to its caller that is not \<^verbatim>\<open>NULL\<close>, was opened during the call and
  is still open, under every outcome. The handles that were open before the call are left
  alone. At the return exactly one more directory handle is open than before the call, at no
  moment of the call were more than that open, and the caller's \<^verbatim>\<open>dir_close\<close> brings the
  number back to what it was.
\<close>

theorem find_file_returns_open_directory:
  assumes "find_file K s p = (r, s')"
  shows "\<exists>d. f_cwd r = Some d \<and> length (dir_handles s) \<le> d \<and> d < length (dir_handles s')
      \<and> snd (dir_handles s' ! d) = 0
      \<and> take (length (dir_handles s)) (dir_handles s') = dir_handles s
      \<and> live_dirs s' = Suc (live_dirs s)
      \<and> dir_peak s' \<le> max (dir_peak s) (Suc (live_dirs s))
      \<and> live_dirs (dir_close s' (f_cwd r)) = live_dirs s"
proof -
  have h: "exit_handles (start_state K s p) (r, s')"
    using find_file_handles [of K s p] assms by simp
  have live: "dir_live s' (f_cwd r)" and n: "live_dirs s' = Suc (live_dirs s)"
    and pk: "dir_peak s' \<le> max (dir_peak s) (Suc (live_dirs s))"
    using h by (auto simp: exit_handles_def)
  obtain d where d: "f_cwd r = Some d" "length (dir_handles s) \<le> d"
    using find_file_own_handles(1) [OF assms] by blast
  have "d < length (dir_handles s')" "snd (dir_handles s' ! d) = 0"
    using live d by (simp_all add: dir_live_def)
  moreover have "live_dirs (dir_close s' (f_cwd r)) = live_dirs s"
    using dir_close_live [OF live] n by simp
  ultimately show ?thesis
    using d n pk find_file_own_handles(2) [OF assms] by blast
qed


theorem find_file_returns_open_directory_witness:
  "\<exists>d. f_cwd (fst (find_file K0 fs0 ''a/../a/b/c'')) = Some d
     \<and> snd (dir_handles (snd (find_file K0 fs0 ''a/../a/b/c'')) ! d) = 0
     \<and> live_dirs (snd (find_file K0 fs0 ''a/../a/b/c'')) = 1
     \<and> dir_peak (snd (find_file K0 fs0 ''a/../a/b/c'')) \<le> 1
     \<and> live_dirs (dir_close (snd (find_file K0 fs0 ''a/../a/b/c''))
          (f_cwd (fst (find_file K0 fs0 ''a/../a/b/c'')))) = 0"
proof -
  have "live_dirs fs0 = 0" "dir_peak fs0 = 0"
    by (simp_all add: fs0_def live_dirs_def)
  then show ?thesis
    using find_file_returns_open_directory [OF surjective_pairing, of K0 fs0 "''a/../a/b/c''"]
    by auto
qed

end
